theory Spec2Isabelle
  imports Main
begin

section \<open>Python values met by the responders\<close>

text \<open>
  The responders of \<^verbatim>\<open>lib/responder.py\<close> handle whatever \<^verbatim>\<open>response.json()\<close>
  hands them, so the values of the model are the values \<^verbatim>\<open>json.loads\<close> produces:
  \<^verbatim>\<open>None\<close>, booleans, integers, strings, lists and dicts (a dict as the list of its
  items in insertion order, its keys distinct; a string as the list of its characters).
  Numbers with a fraction are left out.
\<close>

datatype json =
    JNull
  | JBool bool
  | JInt int
  | JStr string
  | JArr "json list"
  | JObj "(string \<times> json) list"

text \<open>
  The exceptions a responder can raise or let through. \<open>TransportError\<close> and
  \<open>ValueError\<close> stand for what the HTTP client raises (the call cannot complete, the
  body is not JSON); \<open>BuildError\<close> is the failure of \<^verbatim>\<open>AddressBuilder.build\<close>.
\<close>

datatype exn =
    KeyError json
  | TypeError
  | IndexError
  | UnboundLocalError string
  | NotImplementedError
  | BuildError
  | TransportError
  | ValueError

text \<open>Sequencing of computations that may raise.\<close>

definition bindE :: "exn + 'a \<Rightarrow> ('a \<Rightarrow> exn + 'b) \<Rightarrow> exn + 'b" where
  "bindE m f = (case m of Inl e \<Rightarrow> Inl e | Inr x \<Rightarrow> f x)"

text \<open>\<^verbatim>\<open>bool(v)\<close>, the test behind \<^verbatim>\<open>if v:\<close> and \<^verbatim>\<open>if not v:\<close>.\<close>

fun truthy :: "json \<Rightarrow> bool" where
  "truthy JNull = False"
| "truthy (JBool b) = b"
| "truthy (JInt i) = (i \<noteq> 0)"
| "truthy (JStr s) = (s \<noteq> [])"
| "truthy (JArr xs) = (xs \<noteq> [])"
| "truthy (JObj kvs) = (kvs \<noteq> [])"

text \<open>
  \<^verbatim>\<open>v[k]\<close> for a string key \<open>k\<close>: a dict looks the key up and raises
  \<^verbatim>\<open>KeyError\<close> when it is absent; every other value raises \<^verbatim>\<open>TypeError\<close>
  (lists and strings want integer indices, the rest is not subscriptable).
\<close>

fun getitem :: "json \<Rightarrow> string \<Rightarrow> exn + json" where
  "getitem (JObj kvs) k =
     (case map_of kvs k of None \<Rightarrow> Inl (KeyError (JStr k)) | Some v \<Rightarrow> Inr v)"
| "getitem v k = Inl TypeError"

text \<open>\<^verbatim>\<open>len(v)\<close>.\<close>

fun py_len :: "json \<Rightarrow> exn + nat" where
  "py_len (JStr s) = Inr (length s)"
| "py_len (JArr xs) = Inr (length xs)"
| "py_len (JObj kvs) = Inr (length kvs)"
| "py_len v = Inl TypeError"

text \<open>
  \<^verbatim>\<open>v[0]\<close>: the first element of a list, the first character of a string (as a
  string of length one); a dict read from JSON has string keys only, so the key
  \<open>0\<close> is absent.
\<close>

fun getitem0 :: "json \<Rightarrow> exn + json" where
  "getitem0 (JArr xs) = (case xs of [] \<Rightarrow> Inl IndexError | x # _ \<Rightarrow> Inr x)"
| "getitem0 (JStr s) = (case s of [] \<Rightarrow> Inl IndexError | c # _ \<Rightarrow> Inr (JStr [c]))"
| "getitem0 (JObj kvs) = Inl (KeyError (JInt 0))"
| "getitem0 v = Inl TypeError"

text \<open>
  The values a \<^verbatim>\<open>for x in v\<close> loop visits: the elements of a list, the characters of
  a string, the keys of a dict; anything else is not iterable.
\<close>

fun py_iter :: "json \<Rightarrow> exn + json list" where
  "py_iter (JArr xs) = Inr xs"
| "py_iter (JStr s) = Inr (map (\<lambda>c. JStr [c]) s)"
| "py_iter (JObj kvs) = Inr (map (\<lambda>kv. JStr (fst kv)) kvs)"
| "py_iter v = Inl TypeError"

text \<open>
  The text an f-string puts for \<^verbatim>\<open>{v}\<close>, that is \<^verbatim>\<open>str(v)\<close>. The text of a list or
  a dict (Python's \<^verbatim>\<open>repr\<close> of its parts, with its quoting rules) is the parameter
  \<open>rp\<close>.
\<close>

fun dec_nat :: "nat \<Rightarrow> string" where
  "dec_nat n =
     (if n < 10 then [char_of (48 + n)]
      else dec_nat (n div 10) @ [char_of (48 + n mod 10)])"

definition dec_int :: "int \<Rightarrow> string" where
  "dec_int i = (if i < 0 then CHR ''-'' # dec_nat (nat (- i)) else dec_nat (nat i))"

fun py_str :: "(json \<Rightarrow> string) \<Rightarrow> json \<Rightarrow> string" where
  "py_str rp JNull = ''None''"
| "py_str rp (JBool b) = (if b then ''True'' else ''False'')"
| "py_str rp (JInt i) = dec_int i"
| "py_str rp (JStr s) = s"
| "py_str rp v = rp v"

section \<open>Addresses\<close>

text \<open>
  Modelled from the spec: \<^verbatim>\<open>lib/address.py\<close> (\<^verbatim>\<open>Address\<close>, \<^verbatim>\<open>AddressBuilder\<close>) is
  imported by \<^verbatim>\<open>lib/responder.py\<close> and is not among the sources. The spec gives an
  address the attributes street number, street name, apartment number (optional), city,
  state, zip and carrier route (optional, populated only by the carrier-route stage).
  An attribute holds a Python value; \<open>JNull\<close> is \<^verbatim>\<open>None\<close>, an attribute not set.
\<close>

record address =
  street_number :: json
  street_name :: json
  apt_number :: json
  city :: json
  state :: json
  zip_code :: json
  carrier_route :: json

text \<open>
  Modelled from the spec: \<^verbatim>\<open>Address.__eq__\<close>. ``Identity/equality is defined over the
  core fields only: street number, street name, apartment number, city, state, zip.
  The carrier route is excluded from equality.''
\<close>

definition address_eq :: "address \<Rightarrow> address \<Rightarrow> bool" where
  "address_eq a b \<longleftrightarrow>
     street_number a = street_number b \<and> street_name a = street_name b \<and>
     apt_number a = apt_number b \<and> city a = city b \<and> state a = state b \<and>
     zip_code a = zip_code b"

text \<open>
  Modelled from the spec: \<^verbatim>\<open>AddressBuilder ... .build()\<close>. ``Built via an incremental
  builder; build fails if any required core field is missing.'' Which fields are required
  and when one counts as missing is the builder's own check, the parameter \<open>complete\<close>.
  A new address has no carrier route.
\<close>

definition build ::
  "(address \<Rightarrow> bool) \<Rightarrow> json \<Rightarrow> json \<Rightarrow> json \<Rightarrow> json \<Rightarrow> json \<Rightarrow> json \<Rightarrow> exn + address" where
  "build complete sn st apt c s z =
     (let a = \<lparr>street_number = sn, street_name = st, apt_number = apt, city = c,
                state = s, zip_code = z, carrier_route = JNull\<rparr>
      in if complete a then Inr a else Inl BuildError)"

section \<open>The store\<close>

text \<open>
  Lists and addresses are mutable objects that the responders share by reference: a
  list is updated in place (\<^verbatim>\<open>addresses[idx] = new_address\<close>), so is an address
  (\<^verbatim>\<open>address.carrier_route = ...\<close>). The store maps a reference to the object there;
  \<open>fresh\<close> is the next reference not yet given out, and \<open>world\<close> is whatever state
  the remote services and the HTTP client have.
\<close>

type_synonym ref = nat

record 'w store =
  world :: 'w
  objs :: "ref \<Rightarrow> address"
  lsts :: "ref \<Rightarrow> ref list"
  fresh :: ref

text \<open>
  \<^verbatim>\<open>api_client.get(url, headers=..., params=...).json()\<close> and the same with
  \<^verbatim>\<open>post\<close> and \<^verbatim>\<open>data\<close>: a call reads and changes the world and gives the parsed
  body, or raises.
\<close>

type_synonym 'w client =
  "string \<Rightarrow> (string \<times> string) list \<Rightarrow> (string \<times> string) list \<Rightarrow> 'w \<Rightarrow> 'w \<times> (exn + json)"

definition CARRIER_ROUTE_ENDPOINT :: string where
  "CARRIER_ROUTE_ENDPOINT = ''https://tools.usps.com/tools/app/ziplookup/zipByAddress''"

definition ADDRESS_LOOKUP :: string where
  "ADDRESS_LOOKUP =
     ''https://geocode.arcgis.com/arcgis/rest/services/World/GeocodeServer/findAddressCandidates''"

definition HEADERS :: "(string \<times> string) list" where
  "HEADERS =
     [(''user-agent'',
       ''Mozilla/5.0 AppleWebKit/537.36 (KHTML, like Gecko) Chrome/97.0.0.71 Safari/537.0'')]"

text \<open>
  A responder: \<^verbatim>\<open>respond(addresses)\<close> takes the reference of a list and returns the
  reference of a list, or raises; either way it leaves a store behind. The responders
  modelled below are the validation stage, the carrier-route stage and the pipeline;
  \<^verbatim>\<open>ReportGeneratorResponder\<close> writes the batch to a file through the web
  application and returns its argument.
\<close>

type_synonym 'w responder = "ref \<Rightarrow> 'w store \<Rightarrow> 'w store \<times> (exn + ref)"

text \<open>\<^verbatim>\<open>Responder.respond\<close>, the interface itself.\<close>

definition Responder_respond :: "'w responder" where
  "Responder_respond addresses s = (s, Inl NotImplementedError)"

text \<open>A \<^verbatim>\<open>for\<close> loop over \<open>xs\<close> whose body may raise: the first exception ends it.\<close>

fun for_loop :: "('a \<Rightarrow> 's \<Rightarrow> 's \<times> (exn + unit)) \<Rightarrow> 'a list \<Rightarrow> 's \<Rightarrow> 's \<times> (exn + unit)" where
  "for_loop body [] s = (s, Inr ())"
| "for_loop body (x # xs) s =
     (case body x s of
        (s', Inl e) \<Rightarrow> (s', Inl e)
      | (s', Inr _) \<Rightarrow> for_loop body xs s')"

section \<open>The validation stage\<close>

text \<open>
  \<^verbatim>\<open>AddressValidationResponder.respond\<close>, lines 50 to 60: the query string \<open>addr\<close>
  and the parameters of the call.
\<close>

definition single_line :: "(json \<Rightarrow> string) \<Rightarrow> address \<Rightarrow> string" where
  "single_line rp a =
     (if truthy (apt_number a)
      then py_str rp (street_number a) @ '' '' @ py_str rp (street_name a) @ '' apt #'' @
           py_str rp (apt_number a) @ '' '' @ py_str rp (city a) @ '' '' @
           py_str rp (state a) @ '' '' @ py_str rp (zip_code a)
      else py_str rp (street_number a) @ '' '' @ py_str rp (street_name a) @ '' '' @
           py_str rp (city a) @ '' '' @ py_str rp (state a) @ '' '' @ py_str rp (zip_code a))"

definition validation_params :: "(json \<Rightarrow> string) \<Rightarrow> address \<Rightarrow> (string \<times> string) list" where
  "validation_params rp a =
     [(''SingleLine'', single_line rp a), (''f'', ''json''), (''outFields'', ''*''),
      (''countryCode'', ''US'')]"

text \<open>Lines 62 and 63: the call, and \<^verbatim>\<open>.json()\<close> of its response.\<close>

definition validation_call ::
  "(json \<Rightarrow> string) \<Rightarrow> 'w client \<Rightarrow> address \<Rightarrow> 'w \<Rightarrow> 'w \<times> (exn + json)" where
  "validation_call rp api_get a w = api_get ADDRESS_LOOKUP HEADERS (validation_params rp a) w"

text \<open>
  Lines 65 to 67: \<^verbatim>\<open>candidates = resp_json["candidates"]\<close> and
  \<^verbatim>\<open>address_json = candidates[0] if len(candidates) else ""\<close>.
\<close>

definition best_candidate :: "json \<Rightarrow> exn + json" where
  "best_candidate resp_json =
     bindE (getitem resp_json ''candidates'') (\<lambda>candidates.
     bindE (py_len candidates) (\<lambda>n.
       if n \<noteq> 0 then getitem0 candidates else Inr (JStr [])))"

text \<open>
  \<^verbatim>\<open>AddressValidationResponder.validate\<close>, lines 84 to 101: the attributes are read in
  the order of the source (a missing one raises \<^verbatim>\<open>KeyError\<close>), the street name is the
  f-string \<^verbatim>\<open>f"{StName} {StType}"\<close>, and the builder makes the address.
\<close>

definition received_address ::
  "(address \<Rightarrow> bool) \<Rightarrow> (json \<Rightarrow> string) \<Rightarrow> json \<Rightarrow> exn + address" where
  "received_address complete rp address_json =
     bindE (getitem address_json ''attributes'') (\<lambda>address_attributes.
     bindE (getitem address_attributes ''AddNum'') (\<lambda>street_number.
     bindE (getitem address_attributes ''StName'') (\<lambda>st_name.
     bindE (getitem address_attributes ''StType'') (\<lambda>st_type.
     bindE (getitem address_attributes ''SubAddr'') (\<lambda>apt_number.
     bindE (getitem address_attributes ''City'') (\<lambda>city.
     bindE (getitem address_attributes ''RegionAbbr'') (\<lambda>state.
     bindE (getitem address_attributes ''Postal'') (\<lambda>zip.
       build complete street_number
         (JStr (py_str rp st_name @ '' '' @ py_str rp st_type))
         apt_number city state zip))))))))"

text \<open>
  \<^verbatim>\<open>AddressValidationResponder.validate\<close>: with no data the verdict is \<^verbatim>\<open>True\<close> and
  the address given comes back; otherwise the received address is a new object, and the
  verdict is \<^verbatim>\<open>address == received_address\<close>.
\<close>

definition validate ::
  "(address \<Rightarrow> bool) \<Rightarrow> (json \<Rightarrow> string) \<Rightarrow> ref \<Rightarrow> json \<Rightarrow> 'w store \<Rightarrow>
     'w store \<times> (exn + bool \<times> ref)" where
  "validate complete rp address address_json s =
     (if \<not> truthy address_json then (s, Inr (True, address))
      else
        (case received_address complete rp address_json of
           Inl e \<Rightarrow> (s, Inl e)
         | Inr received \<Rightarrow>
             (s\<lparr>objs := (objs s)(fresh s := received), fresh := Suc (fresh s)\<rparr>,
              Inr (address_eq (objs s address) received, fresh s))))"

text \<open>
  The body of the loop of \<^verbatim>\<open>AddressValidationResponder.respond\<close> (lines 48 to 72) at
  the index \<open>idx\<close> of the list \<open>addresses\<close>; \<^verbatim>\<open>addresses[idx]\<close> raises
  \<^verbatim>\<open>IndexError\<close> past the end of the list (the loop never gets there).
\<close>

definition validation_step ::
  "(address \<Rightarrow> bool) \<Rightarrow> (json \<Rightarrow> string) \<Rightarrow> 'w client \<Rightarrow> ref \<Rightarrow> nat \<Rightarrow> 'w store \<Rightarrow>
     'w store \<times> (exn + unit)" where
  "validation_step complete rp api_get addresses idx s =
     (if \<not> idx < length (lsts s addresses) then (s, Inl IndexError)
      else
        let address = lsts s addresses ! idx;
            (w, resp) = validation_call rp api_get (objs s address) (world s);
            s1 = s\<lparr>world := w\<rparr>
        in case bindE resp best_candidate of
             Inl e \<Rightarrow> (s1, Inl e)
           | Inr address_json \<Rightarrow>
               (case validate complete rp address address_json s1 of
                  (s2, Inl e) \<Rightarrow> (s2, Inl e)
                | (s2, Inr (verdict, new_address)) \<Rightarrow>
                    (if \<not> verdict
                     then (s2\<lparr>lsts := (lsts s2)
                                (addresses := (lsts s2 addresses)[idx := new_address])\<rparr>,
                           Inr ())
                     else (s2, Inr ()))))"

text \<open>
  \<^verbatim>\<open>AddressValidationResponder.respond\<close>: \<^verbatim>\<open>for idx in range(len(addresses))\<close>, the
  length read once before the loop, then \<^verbatim>\<open>return addresses\<close>.
\<close>

definition validation_respond ::
  "(address \<Rightarrow> bool) \<Rightarrow> (json \<Rightarrow> string) \<Rightarrow> 'w client \<Rightarrow> 'w responder" where
  "validation_respond complete rp api_get addresses s =
     (case for_loop (validation_step complete rp api_get addresses)
             [0..<length (lsts s addresses)] s of
        (s', Inl e) \<Rightarrow> (s', Inl e)
      | (s', Inr _) \<Rightarrow> (s', Inr addresses))"

section \<open>The carrier-route stage\<close>

text \<open>\<^verbatim>\<open>CarrierRouteRetreiverResponder.respond\<close>, lines 117 to 124: the dict \<open>data\<close>.\<close>

definition carrier_data :: "(json \<Rightarrow> string) \<Rightarrow> address \<Rightarrow> (string \<times> string) list" where
  "carrier_data rp a =
     [(''address1'', py_str rp (street_number a) @ '' '' @ py_str rp (street_name a)),
      (''address2'', py_str rp (apt_number a)),
      (''city'', py_str rp (city a)),
      (''state'', py_str rp (state a)),
      (''urbanCode'', []),
      (''zip'', py_str rp (zip_code a))]"

text \<open>Lines 126 and 127: the call, and \<^verbatim>\<open>.json()\<close> of its response.\<close>

definition carrier_call ::
  "(json \<Rightarrow> string) \<Rightarrow> 'w client \<Rightarrow> address \<Rightarrow> 'w \<Rightarrow> 'w \<times> (exn + json)" where
  "carrier_call rp api_post a w = api_post CARRIER_ROUTE_ENDPOINT HEADERS (carrier_data rp a) w"

text \<open>
  Lines 131 to 135, the inner loop: the first entry whose \<^verbatim>\<open>carrierRoute\<close> is truthy
  gives the route and ends the loop; \<open>None\<close> when the loop runs to its end.
\<close>

fun scan_routes :: "json list \<Rightarrow> exn + json option" where
  "scan_routes [] = Inr None"
| "scan_routes (address_json # rest) =
     (case getitem address_json ''carrierRoute'' of
        Inl e \<Rightarrow> Inl e
      | Inr route \<Rightarrow> if truthy route then Inr (Some route) else scan_routes rest)"

text \<open>The body of the outer loop (lines 116 to 135) for the address object \<open>address\<close>.\<close>

definition carrier_step ::
  "(json \<Rightarrow> string) \<Rightarrow> 'w client \<Rightarrow> ref \<Rightarrow> 'w store \<Rightarrow> 'w store \<times> (exn + unit)" where
  "carrier_step rp api_post address s =
     (let (w, resp) = carrier_call rp api_post (objs s address) (world s);
          s1 = s\<lparr>world := w\<rparr>
      in case bindE resp (\<lambda>resp_json.
              bindE (getitem resp_json ''addressList'') (\<lambda>address_list.
              bindE (py_iter address_list) scan_routes)) of
           Inl e \<Rightarrow> (s1, Inl e)
         | Inr None \<Rightarrow> (s1, Inr ())
         | Inr (Some route) \<Rightarrow>
             (s1\<lparr>objs := (objs s1)(address := (objs s1 address)\<lparr>carrier_route := route\<rparr>)\<rparr>,
              Inr ()))"

text \<open>
  \<^verbatim>\<open>CarrierRouteRetreiverResponder.respond\<close>: \<^verbatim>\<open>for address in addresses\<close>, then
  \<^verbatim>\<open>return addresses\<close>. The body never writes to a list, so the loop visits the
  entries the list has when the loop starts.
\<close>

definition carrier_respond :: "(json \<Rightarrow> string) \<Rightarrow> 'w client \<Rightarrow> 'w responder" where
  "carrier_respond rp api_post addresses s =
     (case for_loop (carrier_step rp api_post) (lsts s addresses) s of
        (s', Inl e) \<Rightarrow> (s', Inl e)
      | (s', Inr _) \<Rightarrow> (s', Inr addresses))"

section \<open>The pipeline\<close>

text \<open>
  \<^verbatim>\<open>ResponderPipeline\<close>: the deque \<^verbatim>\<open>self.responders\<close> is the list of its
  responders from left to right, empty at first; \<^verbatim>\<open>appendleft\<close> and \<^verbatim>\<open>append\<close> add
  at its two ends.
\<close>

definition add_first :: "'w responder \<Rightarrow> 'w responder list \<Rightarrow> 'w responder list" where
  "add_first responder responders = responder # responders"

definition add_last :: "'w responder \<Rightarrow> 'w responder list \<Rightarrow> 'w responder list" where
  "add_last responder responders = responders @ [responder]"

text \<open>
  \<^verbatim>\<open>ResponderPipeline.respond\<close>, lines 189 and 190: every responder is called with
  \<^verbatim>\<open>addresses\<close>, the argument of the pipeline, and its result is put in the variable
  \<^verbatim>\<open>response\<close> (\<open>None\<close> here while nothing has been assigned to it).
\<close>

fun pipeline_loop ::
  "'w responder list \<Rightarrow> ref \<Rightarrow> ref option \<Rightarrow> 'w store \<Rightarrow> 'w store \<times> (exn + ref option)" where
  "pipeline_loop [] addresses response s = (s, Inr response)"
| "pipeline_loop (responder # rest) addresses response s =
     (case responder addresses s of
        (s', Inl e) \<Rightarrow> (s', Inl e)
      | (s', Inr r) \<Rightarrow> pipeline_loop rest addresses (Some r) s')"

text \<open>
  Line 192, \<^verbatim>\<open>return response\<close>: reading a local variable that was never assigned
  raises \<^verbatim>\<open>UnboundLocalError\<close>.
\<close>

definition pipeline_respond :: "'w responder list \<Rightarrow> 'w responder" where
  "pipeline_respond responders addresses s =
     (case pipeline_loop responders addresses None s of
        (s', Inl e) \<Rightarrow> (s', Inl e)
      | (s', Inr None) \<Rightarrow> (s', Inl (UnboundLocalError ''response''))
      | (s', Inr (Some r)) \<Rightarrow> (s', Inr r))"

text \<open>
  The pipeline as the specification words it: ``feeds the batch into the first stage,
  threads each stage's output as the next stage's input, in list order, and returns the
  final stage's output.'' With no stage left the batch is the output.
\<close>

fun spec_run :: "'w responder list \<Rightarrow> 'w responder" where
  "spec_run [] batch s = (s, Inr batch)"
| "spec_run (stage # rest) batch s =
     (case stage batch s of
        (s', Inl e) \<Rightarrow> (s', Inl e)
      | (s', Inr out) \<Rightarrow> spec_run rest out s')"

section \<open>Example data\<close>

text \<open>
  The address of the specification's end-to-end example, and a second one with no
  apartment number.
\<close>

definition springfield :: address where
  "springfield =
     \<lparr>street_number = JStr ''123'', street_name = JStr ''Main St'', apt_number = JStr [],
      city = JStr ''Springfield'', state = JStr ''IL'', zip_code = JStr ''62704'',
      carrier_route = JNull\<rparr>"

definition elm :: address where
  "elm =
     \<lparr>street_number = JStr ''456'', street_name = JStr ''Elm Street'', apt_number = JNull,
      city = JStr ''Shelbyville'', state = JStr ''IL'', zip_code = JStr ''62565'',
      carrier_route = JNull\<rparr>"

text \<open>
  A store with the batch \<open>[0, 1]\<close> at list reference \<open>0\<close>: object \<open>0\<close> is the
  Springfield address, with a carrier route that an earlier run has set, object \<open>1\<close>
  is the Elm Street address. The world of the examples counts the calls made so far.
\<close>

definition example_store :: "nat store" where
  "example_store =
     \<lparr>world = 0,
      objs = (\<lambda>_. elm)(0 := springfield\<lparr>carrier_route := JStr ''R007''\<rparr>),
      lsts = (\<lambda>_. [])(0 := [0, 1]),
      fresh = 2\<rparr>"

text \<open>The batch of the specification's end-to-end example: the Springfield address alone.\<close>

definition springfield_store :: "nat store" where
  "springfield_store =
     \<lparr>world = 0, objs = (\<lambda>_. springfield), lsts = (\<lambda>_. [])(0 := [0]), fresh = 1\<rparr>"

text \<open>
  A client that answers its \<open>n\<close>-th call with the \<open>n\<close>-th entry of a script, and
  cannot connect once the script is used up.
\<close>

definition scripted :: "(exn + json) list \<Rightarrow> nat client" where
  "scripted answers url headers params n =
     (Suc n, if n < length answers then answers ! n else Inl TransportError)"

text \<open>Responses of the two services, as section 6 of the specification lays them out.\<close>

definition candidate_json :: "json \<Rightarrow> json \<Rightarrow> json \<Rightarrow> json \<Rightarrow> json \<Rightarrow> json \<Rightarrow> json \<Rightarrow> json" where
  "candidate_json add_num st_name st_type sub_addr cty region postal =
     JObj [(''score'', JInt 100),
           (''attributes'',
            JObj [(''AddNum'', add_num), (''StName'', st_name), (''StType'', st_type),
                  (''SubAddr'', sub_addr), (''City'', cty), (''RegionAbbr'', region),
                  (''Postal'', postal)])]"

definition main_candidate :: json where
  "main_candidate =
     candidate_json (JStr ''123'') (JStr ''Main'') (JStr ''St'') (JStr []) (JStr ''Springfield'')
       (JStr ''IL'') (JStr ''62704'')"

definition elm_candidate :: json where
  "elm_candidate =
     candidate_json (JStr ''456'') (JStr ''Elm'') (JStr ''St'') (JStr []) (JStr ''Shelbyville'')
       (JStr ''IL'') (JStr ''62565'')"

definition candidates_json :: "json list \<Rightarrow> exn + json" where
  "candidates_json cs = Inr (JObj [(''candidates'', JArr cs)])"

definition no_candidates_key :: "exn + json" where
  "no_candidates_key = Inr (JObj [(''error'', JStr ''bad request'')])"

definition route_entry :: "json \<Rightarrow> json" where
  "route_entry r = JObj [(''zip5'', JStr ''62565''), (''carrierRoute'', r)]"

definition address_list_json :: "json list \<Rightarrow> exn + json" where
  "address_list_json rs = Inr (JObj [(''addressList'', JArr (map route_entry rs))])"

text \<open>
  Two responders that keep to the interface \<^verbatim>\<open>respond(addresses) -> List[Address]\<close>: one
  answers with a new list holding the entries of its argument, one answers with its
  argument.
\<close>

definition copying_responder :: "'w responder" where
  "copying_responder addresses s =
     (s\<lparr>lsts := (lsts s)(fresh s := lsts s addresses), fresh := Suc (fresh s)\<rparr>,
      Inr (fresh s))"

definition echo_responder :: "'w responder" where
  "echo_responder addresses s = (s, Inr addresses)"

section \<open>Auxiliary notions\<close>

text \<open>
  The list at \<open>l\<close> has in \<open>t\<close> the length it has in \<open>s\<close>, and each of its entries
  is the entry of \<open>s\<close> at that index or an object made since.
\<close>

definition same_shape :: "ref \<Rightarrow> 'w store \<Rightarrow> 'w store \<Rightarrow> bool" where
  "same_shape l s t \<longleftrightarrow>
     length (lsts t l) = length (lsts s l) \<and> fresh s \<le> fresh t \<and>
     (\<forall>i<length (lsts s l). lsts t l ! i = lsts s l ! i \<or> fresh s \<le> lsts t l ! i)"

section \<open>Loops and frames\<close>

text \<open>A loop over \<open>xs @ ys\<close> runs over \<open>xs\<close>, then over \<open>ys\<close> unless it raised.\<close>

lemma for_loop_append:
  "for_loop body (xs @ ys) s =
     (case for_loop body xs s of (s', Inl e) \<Rightarrow> (s', Inl e) | (s', Inr _) \<Rightarrow> for_loop body ys s')"
  by (induction xs arbitrary: s) (auto split: prod.splits sum.splits)

text \<open>What every step keeps, the loop keeps, whether it ends or raises.\<close>

lemma for_loop_inv:
  assumes "I s" and "\<And>x t t' r. x \<in> set xs \<Longrightarrow> I t \<Longrightarrow> body x t = (t', r) \<Longrightarrow> I t'"
  shows "I (fst (for_loop body xs s))"
  using assms
proof (induction xs arbitrary: s)
  case Nil then show ?case by simp
next
  case (Cons x xs)
  obtain t r where b: "body x s = (t, r)" by (cases "body x s")
  have It: "I t" using Cons.prems(2)[of x s t r] Cons.prems(1) b by simp
  show ?case
  proof (cases r)
    case (Inl e) then show ?thesis using b It by simp
  next
    case (Inr u)
    have "I (fst (for_loop body xs t))"
      by (rule Cons.IH[OF It]) (use Cons.prems(2) in auto)
    then show ?thesis using b Inr by simp
  qed
qed

subsection \<open>The validation stage\<close>

lemma validate_cases:
  "validate complete rp a j s = (s', r) \<Longrightarrow>
     (s' = s \<and> (r = Inr (True, a) \<or> (\<exists>e. r = Inl e))) \<or>
     (\<exists>received. received_address complete rp j = Inr received \<and> truthy j \<and>
        s' = s\<lparr>objs := (objs s)(fresh s := received), fresh := Suc (fresh s)\<rparr> \<and>
        r = Inr (address_eq (objs s a) received, fresh s))"
  by (auto simp: validate_def split: if_splits sum.splits)

lemma nth_list_update_cases: "xs[i := v] ! i = xs ! i \<or> xs[i := v] ! i = v"
  by (cases "i < length xs") (simp_all add: list_update_beyond)

text \<open>
  One step of the validation loop makes no object older than itself different, keeps the
  length of the list, and writes at most the entry \<open>idx\<close>, with an object it has made.
\<close>

lemma validation_step_frame:
  assumes "validation_step complete rp api_get l idx s = (s', r)"
  shows "fresh s \<le> fresh s'"
    and "\<forall>x<fresh s. objs s' x = objs s x"
    and "length (lsts s' l) = length (lsts s l)"
    and "\<forall>i. i \<noteq> idx \<longrightarrow> lsts s' l ! i = lsts s l ! i"
    and "lsts s' l ! idx = lsts s l ! idx \<or> fresh s \<le> lsts s' l ! idx"
    and "\<forall>l'. l' \<noteq> l \<longrightarrow> lsts s' l' = lsts s l'"
  using assms
  unfolding validation_step_def Let_def
  using nth_list_update_cases[of "lsts s l" idx "fresh s"]
  by (auto split: prod.splits sum.splits if_splits dest!: validate_cases)

lemma validation_loop_frame:
  assumes "for_loop (validation_step complete rp api_get l) idxs s = (s', r)"
  shows "fresh s \<le> fresh s'"
    and "\<forall>x<fresh s. objs s' x = objs s x"
    and "length (lsts s' l) = length (lsts s l)"
    and "\<forall>i. i \<notin> set idxs \<longrightarrow> lsts s' l ! i = lsts s l ! i"
    and "\<forall>i. lsts s' l ! i = lsts s l ! i \<or> fresh s \<le> lsts s' l ! i"
    and "\<forall>l'. l' \<noteq> l \<longrightarrow> lsts s' l' = lsts s l'"
proof -
  let ?I = "\<lambda>t. fresh s \<le> fresh t \<and> (\<forall>x<fresh s. objs t x = objs s x) \<and>
     length (lsts t l) = length (lsts s l) \<and>
     (\<forall>i. i \<notin> set idxs \<longrightarrow> lsts t l ! i = lsts s l ! i) \<and>
     (\<forall>i. lsts t l ! i = lsts s l ! i \<or> fresh s \<le> lsts t l ! i) \<and>
     (\<forall>l'. l' \<noteq> l \<longrightarrow> lsts t l' = lsts s l')"
  have "?I (fst (for_loop (validation_step complete rp api_get l) idxs s))"
  proof (rule for_loop_inv)
    show "?I s" by simp
  next
    fix x t t' r'
    assume x: "x \<in> set idxs" and I: "?I t"
      and st: "validation_step complete rp api_get l x t = (t', r')"
    note f = validation_step_frame[OF st]
    have 1: "fresh s \<le> fresh t'" using I f(1) by linarith
    have 2: "\<forall>y<fresh s. objs t' y = objs s y" using I f(2) by auto
    have 3: "length (lsts t' l) = length (lsts s l)" using I f(3) by simp
    have 4: "\<forall>i. i \<notin> set idxs \<longrightarrow> lsts t' l ! i = lsts s l ! i"
      using I f(4) x by metis
    have 5: "\<forall>i. lsts t' l ! i = lsts s l ! i \<or> fresh s \<le> lsts t' l ! i"
    proof
      fix i
      show "lsts t' l ! i = lsts s l ! i \<or> fresh s \<le> lsts t' l ! i"
      proof (cases "i = x")
        case True
        then show ?thesis using f(5) I by (metis le_trans)
      next
        case False
        then show ?thesis using f(4) I by metis
      qed
    qed
    have 6: "\<forall>l'. l' \<noteq> l \<longrightarrow> lsts t' l' = lsts s l'" using I f(6) by simp
    show "?I t'" using 1 2 3 4 5 6 by blast
  qed
  then show "fresh s \<le> fresh s'"
    and "\<forall>x<fresh s. objs s' x = objs s x"
    and "length (lsts s' l) = length (lsts s l)"
    and "\<forall>i. i \<notin> set idxs \<longrightarrow> lsts s' l ! i = lsts s l ! i"
    and "\<forall>i. lsts s' l ! i = lsts s l ! i \<or> fresh s \<le> lsts s' l ! i"
    and "\<forall>l'. l' \<noteq> l \<longrightarrow> lsts s' l' = lsts s l'"
    using assms by simp_all
qed

lemma received_address_truthy: "received_address complete rp j = Inr a \<Longrightarrow> truthy j"
  by (cases j) (auto simp: received_address_def bindE_def)

lemma validation_step_no_candidates:
  assumes "idx < length (lsts s l)"
    and "validation_call rp api_get (objs s (lsts s l ! idx)) (world s) = (w, Inr resp_json)"
    and "getitem resp_json ''candidates'' = Inr candidates"
    and "py_len candidates = Inr 0"
  shows "validation_step complete rp api_get l idx s = (s\<lparr>world := w\<rparr>, Inr ())"
  using assms
  by (simp add: validation_step_def best_candidate_def bindE_def validate_def)

lemma validation_step_candidate:
  assumes "idx < length (lsts s l)"
    and "validation_call rp api_get (objs s (lsts s l ! idx)) (world s) = (w, Inr resp_json)"
    and "getitem resp_json ''candidates'' = Inr (JArr (candidate # others))"
    and "received_address complete rp candidate = Inr received"
  shows "validation_step complete rp api_get l idx s =
     (if address_eq (objs s (lsts s l ! idx)) received
      then (s\<lparr>world := w, objs := (objs s)(fresh s := received), fresh := Suc (fresh s)\<rparr>,
            Inr ())
      else (s\<lparr>world := w, objs := (objs s)(fresh s := received), fresh := Suc (fresh s),
              lsts := (lsts s)(l := (lsts s l)[idx := fresh s])\<rparr>, Inr ()))"
  using assms received_address_truthy[OF assms(4)]
  by (simp add: validation_step_def best_candidate_def bindE_def validate_def)

text \<open>A step that raises leaves the store as it found it, the world apart.\<close>

lemma validation_step_raises:
  assumes "validation_step complete rp api_get l idx s = (s', Inl e)"
  shows "s' = s\<lparr>world := world s'\<rparr>"
  using assms
  unfolding validation_step_def Let_def
  by (auto split: prod.splits sum.splits if_splits dest!: validate_cases)

text \<open>The run of the stage, cut at the index \<open>idx\<close>.\<close>

lemma validation_respond_split:
  assumes "idx < length (lsts s l)"
    and "for_loop (validation_step complete rp api_get l) [0..<idx] s = (s1, Inr ())"
  shows "validation_respond complete rp api_get l s =
     (case validation_step complete rp api_get l idx s1 of
        (s2, Inl e) \<Rightarrow> (s2, Inl e)
      | (s2, Inr _) \<Rightarrow>
          (case for_loop (validation_step complete rp api_get l)
                  [Suc idx..<length (lsts s l)] s2 of
             (s', Inl e) \<Rightarrow> (s', Inl e)
           | (s', Inr _) \<Rightarrow> (s', Inr l)))"
proof -
  have "[0..<length (lsts s l)] = [0..<idx] @ idx # [Suc idx..<length (lsts s l)]"
  proof -
    have "[0..<idx + (length (lsts s l) - idx)] = [0..<idx] @ [idx..<idx + (length (lsts s l) - idx)]"
      by (rule upt_add_eq_append) simp
    then show ?thesis using assms(1) by (simp add: upt_conv_Cons)
  qed
  then show ?thesis
    using assms(2)
    by (simp add: validation_respond_def for_loop_append split: prod.splits sum.splits)
qed

lemma validation_respond_entry:
  assumes "idx < length (lsts s l)"
    and "for_loop (validation_step complete rp api_get l) [0..<idx] s = (s1, Inr ())"
    and "validation_step complete rp api_get l idx s1 = (s2, Inr ())"
    and "validation_respond complete rp api_get l s = (s', r)"
  shows "lsts s' l ! idx = lsts s2 l ! idx"
    and "\<forall>x<fresh s2. objs s' x = objs s2 x"
    and "lsts s1 l ! idx = lsts s l ! idx"
    and "\<forall>x<fresh s. objs s1 x = objs s x"
    and "fresh s \<le> fresh s1"
proof -
  obtain s3 r3 where rest:
    "for_loop (validation_step complete rp api_get l) [Suc idx..<length (lsts s l)] s2 = (s3, r3)"
    by (cases "for_loop (validation_step complete rp api_get l) [Suc idx..<length (lsts s l)] s2")
  have "s' = s3"
    using validation_respond_split[OF assms(1,2)] assms(3,4) rest
    by (auto split: sum.splits)
  then show "lsts s' l ! idx = lsts s2 l ! idx" and "\<forall>x<fresh s2. objs s' x = objs s2 x"
    using validation_loop_frame(2,4)[OF rest] by simp_all
  show "lsts s1 l ! idx = lsts s l ! idx" "\<forall>x<fresh s. objs s1 x = objs s x" "fresh s \<le> fresh s1"
    using validation_loop_frame(1,2,4)[OF assms(2)] by simp_all
qed

subsection \<open>The carrier-route stage\<close>

lemma scan_routes_first:
  assumes "\<forall>e\<in>set before. \<exists>v. getitem e ''carrierRoute'' = Inr v \<and> \<not> truthy v"
    and "getitem entry ''carrierRoute'' = Inr route" and "truthy route"
  shows "scan_routes (before @ entry # rest) = Inr (Some route)"
  using assms by (induction before) auto

lemma scan_routes_none:
  assumes "\<forall>e\<in>set entries. \<exists>v. getitem e ''carrierRoute'' = Inr v \<and> \<not> truthy v"
  shows "scan_routes entries = Inr None"
  using assms by (induction entries) auto

lemma carrier_step_frame:
  assumes "carrier_step rp api_post a s = (s', r)"
  shows "lsts s' = lsts s \<and> fresh s' = fresh s \<and> (\<forall>x. address_eq (objs s' x) (objs s x))"
  using assms
  unfolding carrier_step_def Let_def
  by (auto split: prod.splits sum.splits option.splits simp: address_eq_def)

lemma carrier_loop_frame:
  assumes "for_loop (carrier_step rp api_post) as s = (s', r)"
  shows "lsts s' = lsts s \<and> fresh s' = fresh s \<and> (\<forall>x. address_eq (objs s' x) (objs s x))"
proof -
  let ?I = "\<lambda>t. lsts t = lsts s \<and> fresh t = fresh s \<and> (\<forall>x. address_eq (objs t x) (objs s x))"
  have "?I (fst (for_loop (carrier_step rp api_post) as s))"
  proof (rule for_loop_inv)
    show "?I s" by (simp add: address_eq_def)
  next
    fix x t t' r'
    assume I: "?I t" and st: "carrier_step rp api_post x t = (t', r')"
    show "?I t'"
      using carrier_step_frame[OF st] I unfolding address_eq_def by metis
  qed
  then show ?thesis using assms by simp
qed

subsection \<open>Stages and the shape of the batch\<close>

lemma same_shape_refl: "same_shape l s s"
  by (simp add: same_shape_def)

lemma same_shape_trans: "same_shape l s t \<Longrightarrow> same_shape l t u \<Longrightarrow> same_shape l s u"
  unfolding same_shape_def
  by (metis le_trans)

lemma validation_respond_shape:
  assumes "validation_respond complete rp api_get l s = (s', Inr out)"
  shows "out = l \<and> same_shape l s s'"
proof -
  obtain t r where lp: "for_loop (validation_step complete rp api_get l)
       [0..<length (lsts s l)] s = (t, r)"
    by (cases "for_loop (validation_step complete rp api_get l) [0..<length (lsts s l)] s")
  have "out = l" "s' = t"
    using assms lp by (auto simp: validation_respond_def split: sum.splits)
  then show ?thesis
    using validation_loop_frame(1,3,5)[OF lp] by (simp add: same_shape_def)
qed

lemma carrier_respond_shape:
  assumes "carrier_respond rp api_post l s = (s', Inr out)"
  shows "out = l \<and> lsts s' = lsts s \<and> fresh s' = fresh s \<and>
         (\<forall>x. address_eq (objs s' x) (objs s x))"
proof -
  obtain t r where lp: "for_loop (carrier_step rp api_post) (lsts s l) s = (t, r)"
    by (cases "for_loop (carrier_step rp api_post) (lsts s l) s")
  have "out = l" "s' = t"
    using assms lp by (auto simp: carrier_respond_def split: sum.splits)
  then show ?thesis
    using carrier_loop_frame[OF lp] by simp
qed

lemma pipeline_loop_shape:
  assumes "\<forall>r\<in>set rs. \<forall>s s' out. r l s = (s', Inr out) \<longrightarrow> out = l \<and> same_shape l s s'"
    and "pipeline_loop rs l resp s = (s', Inr resp')"
  shows "same_shape l s s' \<and> (if rs = [] then resp' = resp else resp' = Some l)"
  using assms
proof (induction rs arbitrary: resp s)
  case Nil
  then show ?case by (simp add: same_shape_refl)
next
  case (Cons r rs)
  obtain t x where rt: "r l s = (t, x)" by (cases "r l s")
  show ?case
  proof (cases x)
    case (Inl e)
    then show ?thesis using Cons.prems(2) rt by simp
  next
    case (Inr out)
    have o: "out = l \<and> same_shape l s t" using Cons.prems(1) rt Inr by simp
    have lp: "pipeline_loop rs l (Some l) t = (s', Inr resp')"
      using Cons.prems(2) rt Inr o by simp
    have ih: "same_shape l t s' \<and> (if rs = [] then resp' = Some l else resp' = Some l)"
      by (rule Cons.IH[OF _ lp]) (use Cons.prems(1) in simp)
    then show ?thesis using o same_shape_trans by fastforce
  qed
qed

subsection \<open>The loop of the pipeline\<close>

lemma pipeline_loop_bound:
  "rs \<noteq> [] \<Longrightarrow> pipeline_loop rs l (Some r) s = pipeline_loop rs l None s"
  by (cases rs) auto

lemma pipeline_loop_append:
  "pipeline_loop (rs @ [d]) l resp s =
     (case pipeline_loop rs l resp s of
        (s', Inl e) \<Rightarrow> (s', Inl e)
      | (s', Inr _) \<Rightarrow>
          (case d l s' of (s'', Inl e) \<Rightarrow> (s'', Inl e) | (s'', Inr r) \<Rightarrow> (s'', Inr (Some r))))"
  by (induction rs arbitrary: resp s) (auto split: prod.splits sum.splits)

lemma pipeline_loop_some:
  "pipeline_loop rs l resp s = (s', Inr x) \<Longrightarrow> rs \<noteq> [] \<or> resp \<noteq> None \<Longrightarrow> x \<noteq> None"
  by (induction rs arbitrary: resp s) (auto split: prod.splits sum.splits)

text \<open>
  When every responder answers with the list it was given, the loop of the source and the
  pipeline of the specification do the same.
\<close>

lemma pipeline_loop_threads:
  assumes "\<forall>r\<in>set rs. \<forall>l s s' out. r l s = (s', Inr out) \<longrightarrow> out = l"
  shows "pipeline_loop rs l (Some l) s =
     (case spec_run rs l s of
        (s', Inl e) \<Rightarrow> (s', Inl e)
      | (s', Inr out) \<Rightarrow> (s', Inr (Some out)))"
  using assms
proof (induction rs arbitrary: s)
  case Nil
  then show ?case by simp
next
  case (Cons r rs)
  obtain t x where rt: "r l s = (t, x)" by (cases "r l s")
  show ?case
  proof (cases x)
    case (Inl e)
    then show ?thesis using rt by simp
  next
    case (Inr out)
    then have "out = l" using Cons.prems rt by simp
    then show ?thesis using rt Inr Cons.IH[of t] Cons.prems by simp
  qed
qed

subsection \<open>Unfolding the stages on the example data\<close>

lemmas validation_eval =
  validation_respond_def validation_step_def validation_call_def best_candidate_def bindE_def
  validate_def received_address_def build_def address_eq_def

lemmas carrier_eval =
  carrier_respond_def carrier_step_def carrier_call_def bindE_def

lemmas example_eval =
  example_store_def scripted_def candidate_json_def main_candidate_def elm_candidate_def
  candidates_json_def no_candidates_key_def route_entry_def address_list_json_def springfield_def
  elm_def springfield_store_def

section \<open>The pipeline\<close>

text \<open>
  C1. The claim: for every pipeline with at least one stage and every input batch,
  \<^verbatim>\<open>ResponderPipeline.respond\<close> feeds the batch into the first stage, passes each stage's
  output as the input of the next stage in list order, and returns the final stage's
  output. The source does return the last stage's output, but line 190 calls every
  responder with \<^verbatim>\<open>addresses\<close>, the argument of the pipeline: of two responders the
  second runs on the list \<open>l\<close> the pipeline was given, where \<open>spec_run\<close> runs it on
  the output of the first. The two agree when the first responder answers with the list it
  was given, as the three responders of the source do. They differ for
  \<open>copying_responder\<close>, which answers with a new list: on the example store the source
  returns the list \<open>0\<close> it was called with, and the pipeline of the specification
  returns the new list \<open>2\<close>.
\<close>

theorem pipeline_feeds_original_batch:
  "pipeline_respond [r1, r2] l s =
     (case r1 l s of (s1, Inl e) \<Rightarrow> (s1, Inl e) | (s1, Inr out1) \<Rightarrow> r2 l s1) \<and>
   spec_run [r1, r2] l s =
     (case r1 l s of (s1, Inl e) \<Rightarrow> (s1, Inl e) | (s1, Inr out1) \<Rightarrow> r2 out1 s1) \<and>
   snd (pipeline_respond [copying_responder, echo_responder] 0 example_store) = Inr 0 \<and>
   snd (spec_run [copying_responder, echo_responder] 0 example_store) = Inr 2"
  by (simp add: pipeline_respond_def copying_responder_def echo_responder_def example_store_def
      split: prod.splits sum.splits)

text \<open>
  Responders that work in place. For every pipeline with at least one stage whose
  responders all answer with the list they were given (the validation stage and the
  carrier-route stage do),
  \<^verbatim>\<open>ResponderPipeline.respond\<close> does what the specification says: it feeds the batch
  into the first stage, passes each stage's output on to the next, and returns the last
  stage's output.
\<close>

theorem pipeline_threads_in_place_responders:
  assumes "rs \<noteq> []"
    and "\<forall>r\<in>set rs. \<forall>l s s' out. r l s = (s', Inr out) \<longrightarrow> out = l"
  shows "pipeline_respond rs l s = spec_run rs l s"
proof -
  obtain r rest where rs: "rs = r # rest" using assms(1) by (cases rs) auto
  obtain t x where rt: "r l s = (t, x)" by (cases "r l s")
  show ?thesis
  proof (cases x)
    case (Inl e)
    then show ?thesis using rs rt by (simp add: pipeline_respond_def)
  next
    case (Inr out)
    then have o: "out = l" using assms(2) rs rt by simp
    have "\<forall>r\<in>set rest. \<forall>l s s' out. r l s = (s', Inr out) \<longrightarrow> out = l"
      using assms(2) rs by simp
    note th = pipeline_loop_threads[OF this, of l t]
    show ?thesis
      using rs rt Inr o th
      by (simp add: pipeline_respond_def split: prod.splits sum.splits)
  qed
qed

text \<open>The pipeline of the validation stage and the carrier-route stage.\<close>

theorem pipeline_threads_in_place_responders_witness:
  "pipeline_respond
     [validation_respond (\<lambda>_. True) (\<lambda>_. [])
        (scripted [candidates_json [main_candidate], address_list_json [JStr ''C001'']]),
      carrier_respond (\<lambda>_. [])
        (scripted [candidates_json [main_candidate], address_list_json [JStr ''C001'']])]
     0 springfield_store =
   spec_run
     [validation_respond (\<lambda>_. True) (\<lambda>_. [])
        (scripted [candidates_json [main_candidate], address_list_json [JStr ''C001'']]),
      carrier_respond (\<lambda>_. [])
        (scripted [candidates_json [main_candidate], address_list_json [JStr ''C001'']])]
     0 springfield_store"
proof -
  let ?b = "scripted [candidates_json [main_candidate], address_list_json [JStr ''C001'']]"
  let ?v = "validation_respond (\<lambda>_. True) (\<lambda>_. []) ?b"
  let ?c = "carrier_respond (\<lambda>_. []) ?b"
  have v: "\<forall>l s s' out. ?v l s = (s', Inr out) \<longrightarrow> out = l"
    using validation_respond_shape by blast
  have c: "\<forall>l s s' out. ?c l s = (s', Inr out) \<longrightarrow> out = l"
    using carrier_respond_shape by blast
  have h: "\<forall>r\<in>set [?v, ?c]. \<forall>l s s' out. r l s = (s', Inr out) \<longrightarrow> out = l"
    using v c by simp
  have n: "[?v, ?c] \<noteq> []" by simp
  show ?thesis
    by (rule pipeline_threads_in_place_responders[OF n h])
qed

text \<open>
  C7. For every pipeline, \<^verbatim>\<open>add_first(stage)\<close> puts the stage at the head, so that it
  runs before all the stages added earlier, and \<^verbatim>\<open>add_last(stage)\<close> puts it at the
  tail, so that it runs after them; from the execution order \<open>[A, B]\<close>,
  \<^verbatim>\<open>add_first(C)\<close> gives \<open>[C, A, B]\<close> and then \<^verbatim>\<open>add_last(D)\<close> gives
  \<open>[C, A, B, D]\<close>: the run of that pipeline calls \<open>C\<close>, \<open>A\<close>, \<open>B\<close> and \<open>D\<close>
  in this order, each on the store the one before has left, and stops at the first that
  raises.
\<close>

theorem add_first_add_last_order:
  "pipeline_respond (add_first c rs) l s =
     (case c l s of
        (s', Inl e) \<Rightarrow> (s', Inl e)
      | (s', Inr r) \<Rightarrow> if rs = [] then (s', Inr r) else pipeline_respond rs l s') \<and>
   pipeline_respond (add_last d rs) l s =
     (if rs = [] then d l s
      else (case pipeline_respond rs l s of
              (s', Inl e) \<Rightarrow> (s', Inl e)
            | (s', Inr _) \<Rightarrow> d l s')) \<and>
   add_first C [A, B] = [C, A, B] \<and>
   add_last D (add_first C [A, B]) = [C, A, B, D] \<and>
   pipeline_respond (add_last D (add_first C [A, B])) l s =
     (case C l s of
        (s1, Inl e) \<Rightarrow> (s1, Inl e)
      | (s1, Inr _) \<Rightarrow>
          (case A l s1 of
             (s2, Inl e) \<Rightarrow> (s2, Inl e)
           | (s2, Inr _) \<Rightarrow>
               (case B l s2 of
                  (s3, Inl e) \<Rightarrow> (s3, Inl e)
                | (s3, Inr _) \<Rightarrow> D l s3)))"
  (is "?F \<and> ?L \<and> ?X \<and> ?Y \<and> ?Z")
proof -
  have f: ?F
  proof (cases "rs = []")
    case True
    then show ?thesis
      by (simp add: add_first_def pipeline_respond_def split: prod.splits sum.splits)
  next
    case False
    then show ?thesis
      by (simp add: add_first_def pipeline_respond_def pipeline_loop_bound
          split: prod.splits sum.splits)
  qed
  have l: ?L
  proof (cases "rs = []")
    case True
    then show ?thesis
      by (simp add: add_last_def pipeline_respond_def split: prod.splits sum.splits)
  next
    case False
    obtain t x where lp: "pipeline_loop rs l None s = (t, x)"
      by (cases "pipeline_loop rs l None s")
    show ?thesis
    proof (cases x)
      case (Inl e)
      then show ?thesis
        using False lp by (simp add: add_last_def pipeline_respond_def pipeline_loop_append)
    next
      case (Inr y)
      then obtain r where "y = Some r"
        using pipeline_loop_some[of rs l None s t y] lp False by auto
      then show ?thesis
        using False lp Inr
        by (simp add: add_last_def pipeline_respond_def pipeline_loop_append
            split: prod.splits sum.splits)
    qed
  qed
  have x: ?X and y: ?Y by (simp_all add: add_first_def add_last_def)
  have z: ?Z
    by (simp add: add_first_def add_last_def pipeline_respond_def
        split: prod.splits sum.splits)
  show ?thesis using f l x y z by blast
qed

text \<open>
  C10. For every input batch, \<^verbatim>\<open>ResponderPipeline.respond\<close> on a pipeline with no
  responder raises an error, the variable \<^verbatim>\<open>response\<close> never having been bound; it
  does not return the input batch. The store is left as it was.
\<close>

theorem pipeline_respond_empty:
  "pipeline_respond [] addresses s = (s, Inl (UnboundLocalError ''response''))"
  by (simp add: pipeline_respond_def)

section \<open>The shape of the batch\<close>

text \<open>
  C2. For every input batch that the validation stage, the carrier-route stage or a
  pipeline built from such stages processes and returns, the output batch is the list that
  was put in, it has the length it had, and the entry at an index \<open>i\<close> is the entry
  that was there or an address made during the run (a reference not below the \<open>fresh\<close>
  of the start, so not an entry that the input had at another index): no entry is moved,
  added or dropped. The carrier-route stage leaves every entry of the list where it was
  and the core fields of every address as they were.
\<close>

theorem batch_shape_preserved:
  "(validation_respond complete rp api_get l s = (s', Inr out) \<longrightarrow>
      out = l \<and> length (lsts s' l) = length (lsts s l) \<and>
      (\<forall>i<length (lsts s l). lsts s' l ! i = lsts s l ! i \<or> fresh s \<le> lsts s' l ! i)) \<and>
   (carrier_respond rp api_post l s = (s', Inr out) \<longrightarrow>
      out = l \<and> lsts s' l = lsts s l \<and> (\<forall>x. address_eq (objs s' x) (objs s x))) \<and>
   (rs \<noteq> [] \<and>
    (\<forall>r\<in>set rs. (\<exists>c q g. r = validation_respond c q g) \<or> (\<exists>q p. r = carrier_respond q p)) \<and>
    pipeline_respond rs l s = (s', Inr out) \<longrightarrow>
      out = l \<and> length (lsts s' l) = length (lsts s l) \<and>
      (\<forall>i<length (lsts s l). lsts s' l ! i = lsts s l ! i \<or> fresh s \<le> lsts s' l ! i))"
  (is "?V \<and> ?C \<and> ?P")
proof -
  have v: ?V
    using validation_respond_shape[of complete rp api_get l s s' out]
    by (simp add: same_shape_def)
  have c: ?C
    using carrier_respond_shape[of rp api_post l s s' out] by simp
  have p: ?P
  proof (rule impI)
    assume h: "rs \<noteq> [] \<and>
      (\<forall>r\<in>set rs. (\<exists>c q g. r = validation_respond c q g) \<or> (\<exists>q p. r = carrier_respond q p)) \<and>
      pipeline_respond rs l s = (s', Inr out)"
    have ok: "\<forall>r\<in>set rs. \<forall>s s' out. r l s = (s', Inr out) \<longrightarrow> out = l \<and> same_shape l s s'"
    proof (intro ballI allI impI)
      fix r t t' o'
      assume r: "r \<in> set rs" and run: "r l t = (t', Inr o')"
      from h r consider c q g where "r = validation_respond c q g"
        | q p where "r = carrier_respond q p" by blast
      then show "o' = l \<and> same_shape l t t'"
      proof cases
        case 1
        then show ?thesis using validation_respond_shape run by metis
      next
        case 2
        then have "o' = l \<and> lsts t' = lsts t \<and> fresh t' = fresh t"
          using carrier_respond_shape[of q p l t t' o'] run by simp
        then show ?thesis by (simp add: same_shape_def)
      qed
    qed
    obtain resp' where lp: "pipeline_loop rs l None s = (s', Inr resp')" and "resp' = Some out"
      using h by (auto simp: pipeline_respond_def split: prod.splits sum.splits option.splits)
    then have "same_shape l s s' \<and> out = l"
      using pipeline_loop_shape[OF ok lp] h by simp
    then show "out = l \<and> length (lsts s' l) = length (lsts s l) \<and>
        (\<forall>i<length (lsts s l). lsts s' l ! i = lsts s l ! i \<or> fresh s \<le> lsts s' l ! i)"
      by (simp add: same_shape_def)
  qed
  show ?thesis by (rule conjI[OF v conjI[OF c p]])
qed

text \<open>
  The example batch through the validation stage, through the carrier-route stage, and
  through the pipeline of the two.
\<close>

theorem batch_shape_preserved_witness:
  "snd (validation_respond (\<lambda>_. True) (\<lambda>_. [])
          (scripted [candidates_json [main_candidate], candidates_json [elm_candidate]]) 0 example_store) = Inr 0 \<and>
   length (lsts (fst (validation_respond (\<lambda>_. True) (\<lambda>_. [])
          (scripted [candidates_json [main_candidate], candidates_json [elm_candidate]]) 0 example_store)) 0) = 2 \<and>
   snd (carrier_respond (\<lambda>_. [])
          (scripted [address_list_json [JStr ''C001''], address_list_json [JStr [], JStr ''C002'']]) 0 example_store) = Inr 0 \<and>
   lsts (fst (carrier_respond (\<lambda>_. [])
          (scripted [address_list_json [JStr ''C001''], address_list_json [JStr [], JStr ''C002'']]) 0 example_store)) 0 = [0, 1] \<and>
   snd (pipeline_respond
          [validation_respond (\<lambda>_. True) (\<lambda>_. [])
             (scripted [candidates_json [main_candidate], candidates_json [elm_candidate],
                        address_list_json [JStr ''C001''], address_list_json [JStr [], JStr ''C002'']]),
           carrier_respond (\<lambda>_. [])
             (scripted [candidates_json [main_candidate], candidates_json [elm_candidate],
                        address_list_json [JStr ''C001''], address_list_json [JStr [], JStr ''C002'']])]
          0 example_store) = Inr 0 \<and>
   length (lsts (fst (pipeline_respond
          [validation_respond (\<lambda>_. True) (\<lambda>_. [])
             (scripted [candidates_json [main_candidate], candidates_json [elm_candidate],
                        address_list_json [JStr ''C001''], address_list_json [JStr [], JStr ''C002'']]),
           carrier_respond (\<lambda>_. [])
             (scripted [candidates_json [main_candidate], candidates_json [elm_candidate],
                        address_list_json [JStr ''C001''], address_list_json [JStr [], JStr ''C002'']])]
          0 example_store)) 0) = 2"
proof -
  let ?c = "\<lambda>_::address. True" and ?q = "\<lambda>_::json. []::string"
  let ?g = "scripted [candidates_json [main_candidate], candidates_json [elm_candidate]]"
  let ?p = "scripted [address_list_json [JStr ''C001''], address_list_json [JStr [], JStr ''C002'']]"
  let ?b = "scripted [candidates_json [main_candidate], candidates_json [elm_candidate],
                      address_list_json [JStr ''C001''], address_list_json [JStr [], JStr ''C002'']]"
  let ?rs = "[validation_respond ?c ?q ?b, carrier_respond ?q ?b]"
  let ?V = "validation_respond ?c ?q ?g 0 example_store"
  let ?C = "carrier_respond ?q ?p 0 example_store"
  let ?P = "pipeline_respond ?rs 0 example_store"
  have n: "length (lsts example_store 0) = 2" "lsts example_store 0 = [0, 1]"
    by (simp_all add: example_store_def)
  have v: "snd ?V = Inr 0"
    by (simp add: validation_eval example_eval)
  then have hv: "?V = (fst ?V, Inr 0)"
    by (simp add: prod_eq_iff)
  have c: "snd ?C = Inr 0"
    by (simp add: carrier_eval example_eval)
  then have hc: "?C = (fst ?C, Inr 0)"
    by (simp add: prod_eq_iff)
  have p: "snd ?P = Inr 0"
    by (simp add: pipeline_respond_def validation_eval carrier_eval example_eval)
  then have "?P = (fst ?P, Inr 0)"
    by (simp add: prod_eq_iff)
  moreover have "\<forall>r\<in>set ?rs. (\<exists>c q g. r = validation_respond c q g) \<or>
      (\<exists>q p. r = carrier_respond q p)"
    by auto
  ultimately have hp: "?rs \<noteq> [] \<and>
      (\<forall>r\<in>set ?rs. (\<exists>c q g. r = validation_respond c q g) \<or>
         (\<exists>q p. r = carrier_respond q p)) \<and>
      ?P = (fst ?P, Inr 0)"
    by simp
  have v2: "length (lsts (fst ?V) 0) = 2"
    using batch_shape_preserved[of ?c ?q ?g 0 example_store "fst ?V" 0,
        THEN conjunct1, THEN mp, OF hv] n
    by simp
  have c2: "lsts (fst ?C) 0 = [0, 1]"
    using batch_shape_preserved[where rp = ?q and api_post = ?p and l = 0
          and s = example_store and s' = "fst ?C" and out = 0,
        THEN conjunct2, THEN conjunct1, THEN mp, OF hc] n
    by simp
  have p2: "length (lsts (fst ?P) 0) = 2"
    using batch_shape_preserved[where rs = ?rs and l = 0
          and s = example_store and s' = "fst ?P" and out = 0,
        THEN conjunct2, THEN conjunct2, THEN mp, OF hp] n
    by simp
  show ?thesis
    by (rule conjI[OF v conjI[OF v2 conjI[OF c conjI[OF c2 conjI[OF p p2]]]]])
qed

section \<open>The carrier-route stage\<close>

text \<open>
  C3. For every address that the carrier-route stage processes: scanning the entries of
  the response's \<^verbatim>\<open>addressList\<close> in order, the stage assigns to \<^verbatim>\<open>carrier_route\<close> the
  \<^verbatim>\<open>carrierRoute\<close> of the first entry where that value is truthy, and stops there
  (whatever the entries after it are, they are not read); if no entry has a truthy
  \<^verbatim>\<open>carrierRoute\<close>, nothing is assigned, and the address stays as it was. Nothing
  else in the store changes.
\<close>

theorem carrier_route_first_match:
  assumes "carrier_call rp api_post (objs s address) (world s) = (w, Inr resp_json)"
    and "getitem resp_json ''addressList'' = Inr address_list"
    and "py_iter address_list = Inr entries"
  shows "(entries = before @ entry # rest \<and>
          (\<forall>e\<in>set before. \<exists>v. getitem e ''carrierRoute'' = Inr v \<and> \<not> truthy v) \<and>
          getitem entry ''carrierRoute'' = Inr route \<and> truthy route \<longrightarrow>
            carrier_step rp api_post address s =
              (s\<lparr>world := w,
                 objs := (objs s)(address := (objs s address)\<lparr>carrier_route := route\<rparr>)\<rparr>,
               Inr ())) \<and>
         ((\<forall>e\<in>set entries. \<exists>v. getitem e ''carrierRoute'' = Inr v \<and> \<not> truthy v) \<longrightarrow>
            carrier_step rp api_post address s = (s\<lparr>world := w\<rparr>, Inr ()))"
proof (intro conjI impI)
  assume h: "entries = before @ entry # rest \<and>
          (\<forall>e\<in>set before. \<exists>v. getitem e ''carrierRoute'' = Inr v \<and> \<not> truthy v) \<and>
          getitem entry ''carrierRoute'' = Inr route \<and> truthy route"
  then have "scan_routes entries = Inr (Some route)"
    using scan_routes_first[of before entry route rest] by simp
  then show "carrier_step rp api_post address s =
      (s\<lparr>world := w, objs := (objs s)(address := (objs s address)\<lparr>carrier_route := route\<rparr>)\<rparr>,
       Inr ())"
    using assms by (simp add: carrier_step_def bindE_def)
next
  assume "\<forall>e\<in>set entries. \<exists>v. getitem e ''carrierRoute'' = Inr v \<and> \<not> truthy v"
  then have "scan_routes entries = Inr None" by (rule scan_routes_none)
  then show "carrier_step rp api_post address s = (s\<lparr>world := w\<rparr>, Inr ())"
    using assms by (simp add: carrier_step_def bindE_def)
qed

text \<open>
  The Elm Street address with two responses: the second entry is the first with a route
  (the fourth one is no dict, and is never read); no entry has a route.
\<close>

theorem carrier_route_first_match_witness:
  "carrier_route (objs example_store 1) = JNull \<and>
   carrier_step (\<lambda>_. [])
     (scripted [Inr (JObj [(''addressList'',
        JArr [route_entry (JStr []), route_entry (JStr ''C001''), route_entry (JStr ''C002''),
              JStr ''junk''])])]) 1 example_store =
     (example_store\<lparr>world := 1,
        objs := (objs example_store)(1 := (objs example_store 1)\<lparr>carrier_route := JStr ''C001''\<rparr>)\<rparr>,
      Inr ()) \<and>
   carrier_step (\<lambda>_. [])
     (scripted [Inr (JObj [(''addressList'', JArr [route_entry (JStr []), route_entry JNull])])])
     1 example_store =
     (example_store\<lparr>world := 1\<rparr>, Inr ())"
proof -
  let ?l1 = "[route_entry (JStr []), route_entry (JStr ''C001''), route_entry (JStr ''C002''),
              JStr ''junk'']"
  let ?l2 = "[route_entry (JStr []), route_entry JNull]"
  let ?p1 = "scripted [Inr (JObj [(''addressList'', JArr ?l1)])]"
  let ?p2 = "scripted [Inr (JObj [(''addressList'', JArr ?l2)])]"
  have a1: "carrier_call (\<lambda>_. []) ?p1 (objs example_store 1) (world example_store) =
              (1, Inr (JObj [(''addressList'', JArr ?l1)]))"
    by (simp add: carrier_call_def scripted_def example_store_def)
  have a2: "carrier_call (\<lambda>_. []) ?p2 (objs example_store 1) (world example_store) =
              (1, Inr (JObj [(''addressList'', JArr ?l2)]))"
    by (simp add: carrier_call_def scripted_def example_store_def)
  have b1: "getitem (JObj [(''addressList'', JArr ?l1)]) ''addressList'' = Inr (JArr ?l1)"
    by simp
  have b2: "getitem (JObj [(''addressList'', JArr ?l2)]) ''addressList'' = Inr (JArr ?l2)"
    by simp
  have i1: "py_iter (JArr ?l1) = Inr ?l1" and i2: "py_iter (JArr ?l2) = Inr ?l2"
    by simp_all
  have m: "?l1 = [route_entry (JStr [])] @ route_entry (JStr ''C001'') #
                   [route_entry (JStr ''C002''), JStr ''junk''] \<and>
           (\<forall>e\<in>set [route_entry (JStr [])].
              \<exists>v. getitem e ''carrierRoute'' = Inr v \<and> \<not> truthy v) \<and>
           getitem (route_entry (JStr ''C001'')) ''carrierRoute'' = Inr (JStr ''C001'') \<and>
           truthy (JStr ''C001'')"
    by (simp add: route_entry_def)
  have n: "\<forall>e\<in>set ?l2. \<exists>v. getitem e ''carrierRoute'' = Inr v \<and> \<not> truthy v"
    by (simp add: route_entry_def)
  have u: "carrier_route (objs example_store 1) = JNull"
    by (simp add: example_store_def elm_def)
  note c1 = carrier_route_first_match[OF a1 b1 i1, THEN conjunct1, THEN mp, OF m]
  note c2 = carrier_route_first_match[OF a2 b2 i2, THEN conjunct2, THEN mp, OF n]
  show ?thesis
    by (rule conjI[OF u conjI[OF c1 c2]])
qed

text \<open>
  C9. The claim: for every address that the carrier-route stage processes, the request
  holds address line 1 (street number and street name), address line 2 (the apartment
  number, or an explicit empty value when there is none), the city, the state, the zip and
  an empty urban code. Line 119 of the source formats the apartment number with
  \<^verbatim>\<open>f"{address.apt_number}"\<close>, and for an address with no apartment number
  (\<^verbatim>\<open>None\<close>) that text is \<^verbatim>\<open>None\<close>, not the empty string. The validation stage, at
  line 50, tests the apartment number before it formats it.
\<close>

theorem carrier_data_absent_apartment:
  "carrier_data rp (springfield\<lparr>apt_number := JNull\<rparr>) =
     [(''address1'', ''123 Main St''), (''address2'', ''None''), (''city'', ''Springfield''),
      (''state'', ''IL''), (''urbanCode'', []), (''zip'', ''62704'')]"
  by (simp add: carrier_data_def springfield_def)

text \<open>
  An apartment number that is a string. For every such address the request of the
  carrier-route stage holds address line 1 (street number, a space, street name), that
  string as address line 2 (the empty string when the apartment number is empty), the
  city, the state, an empty urban code and the zip.
\<close>

theorem carrier_data_apartment_text:
  "apt_number a = JStr apt \<Longrightarrow>
   carrier_data rp a =
     [(''address1'', py_str rp (street_number a) @ '' '' @ py_str rp (street_name a)),
      (''address2'', apt),
      (''city'', py_str rp (city a)),
      (''state'', py_str rp (state a)),
      (''urbanCode'', []),
      (''zip'', py_str rp (zip_code a))]"
  by (simp add: carrier_data_def)

text \<open>The Springfield address, whose apartment number is the empty string.\<close>

theorem carrier_data_apartment_text_witness:
  "apt_number springfield = JStr [] \<and>
   carrier_data (\<lambda>_. []) springfield =
     [(''address1'', ''123 Main St''), (''address2'', []), (''city'', ''Springfield''),
      (''state'', ''IL''), (''urbanCode'', []), (''zip'', ''62704'')]"
proof -
  have h: "apt_number springfield = JStr []"
    by (simp add: springfield_def)
  have "carrier_data (\<lambda>_. []) springfield =
     [(''address1'', ''123 Main St''), (''address2'', []), (''city'', ''Springfield''),
      (''state'', ''IL''), (''urbanCode'', []), (''zip'', ''62704'')]"
    using carrier_data_apartment_text[OF h, of "\<lambda>_. []"] by (simp add: springfield_def)
  then show ?thesis using h by simp
qed

section \<open>The validation stage\<close>

text \<open>
  C4, as amended. In the validation stage, when the first candidate exists and the address
  made from it (street number \<^verbatim>\<open>AddNum\<close>; street name \<^verbatim>\<open>StName\<close> and \<^verbatim>\<open>StType\<close>
  joined by one space; \<^verbatim>\<open>SubAddr\<close> as apartment number; \<^verbatim>\<open>City\<close>; \<^verbatim>\<open>RegionAbbr\<close>
  as state; \<^verbatim>\<open>Postal\<close> as zip; no carrier route) is accepted by the builder and differs
  from the original on the core fields, the entry of the batch at that index is replaced
  by that address, a new object, and stays so to the end of the stage.
\<close>

theorem validation_replaces_differing_candidate:
  assumes "idx < length (lsts s l)"
    and "for_loop (validation_step complete rp api_get l) [0..<idx] s = (s1, Inr ())"
    and "validation_call rp api_get (objs s1 (lsts s1 l ! idx)) (world s1) = (w, Inr resp_json)"
    and "getitem resp_json ''candidates'' = Inr (JArr (candidate # others))"
    and "getitem candidate ''attributes'' = Inr attrs"
    and "getitem attrs ''AddNum'' = Inr add_num"
    and "getitem attrs ''StName'' = Inr st_name"
    and "getitem attrs ''StType'' = Inr st_type"
    and "getitem attrs ''SubAddr'' = Inr sub_addr"
    and "getitem attrs ''City'' = Inr cty"
    and "getitem attrs ''RegionAbbr'' = Inr region"
    and "getitem attrs ''Postal'' = Inr postal"
    and "received = \<lparr>street_number = add_num,
           street_name = JStr (py_str rp st_name @ '' '' @ py_str rp st_type),
           apt_number = sub_addr, city = cty, state = region, zip_code = postal,
           carrier_route = JNull\<rparr>"
    and "complete received"
    and "\<not> address_eq (objs s1 (lsts s1 l ! idx)) received"
    and "validation_respond complete rp api_get l s = (s', r)"
  shows "lsts s' l ! idx = fresh s1 \<and> objs s' (lsts s' l ! idx) = received"
proof -
  have recv: "received_address complete rp candidate = Inr received"
    using assms(5-14) by (simp add: received_address_def bindE_def build_def)
  let ?s2 = "s1\<lparr>world := w, objs := (objs s1)(fresh s1 := received), fresh := Suc (fresh s1),
                lsts := (lsts s1)(l := (lsts s1 l)[idx := fresh s1])\<rparr>"
  have len: "idx < length (lsts s1 l)"
    using validation_loop_frame(3)[OF assms(2)] assms(1) by simp
  have step: "validation_step complete rp api_get l idx s1 = (?s2, Inr ())"
    using validation_step_candidate[OF len assms(3,4) recv] assms(15) by simp
  note e = validation_respond_entry[OF assms(1,2) step assms(16)]
  have 1: "lsts s' l ! idx = fresh s1" using e(1) len by simp
  have 2: "objs s' (fresh s1) = received" using e(2) by simp
  show ?thesis using 1 2 by simp
qed

text \<open>
  The example batch: the candidate for the second entry says \<open>Elm St\<close> where the
  entry says \<open>Elm Street\<close>.
\<close>

theorem validation_replaces_differing_candidate_witness:
  "\<not> address_eq elm
      \<lparr>street_number = JStr ''456'', street_name = JStr ''Elm St'', apt_number = JStr [],
       city = JStr ''Shelbyville'', state = JStr ''IL'', zip_code = JStr ''62565'',
       carrier_route = JNull\<rparr> \<and>
   lsts (fst (validation_respond (\<lambda>_. True) (\<lambda>_. [])
          (scripted [candidates_json [main_candidate], candidates_json [elm_candidate]]) 0 example_store)) 0 ! 1 = 3 \<and>
   objs (fst (validation_respond (\<lambda>_. True) (\<lambda>_. [])
          (scripted [candidates_json [main_candidate], candidates_json [elm_candidate]]) 0 example_store)) 3 =
     \<lparr>street_number = JStr ''456'', street_name = JStr ''Elm St'', apt_number = JStr [],
      city = JStr ''Shelbyville'', state = JStr ''IL'', zip_code = JStr ''62565'',
      carrier_route = JNull\<rparr>"
proof -
  let ?get = "scripted [candidates_json [main_candidate], candidates_json [elm_candidate]]"
  let ?step = "validation_step (\<lambda>_. True) (\<lambda>_. []) ?get 0"
  let ?s1 = "fst (for_loop ?step [0..<1] example_store)"
  let ?run = "validation_respond (\<lambda>_. True) (\<lambda>_. []) ?get 0 example_store"
  let ?attrs = "JObj [(''AddNum'', JStr ''456''), (''StName'', JStr ''Elm''),
      (''StType'', JStr ''St''), (''SubAddr'', JStr []), (''City'', JStr ''Shelbyville''),
      (''RegionAbbr'', JStr ''IL''), (''Postal'', JStr ''62565'')]"
  let ?received = "\<lparr>street_number = JStr ''456'', street_name = JStr ''Elm St'',
      apt_number = JStr [], city = JStr ''Shelbyville'', state = JStr ''IL'',
      zip_code = JStr ''62565'', carrier_route = JNull\<rparr>"
  have h1: "1 < length (lsts example_store 0)"
    by (simp add: example_store_def)
  have g: "snd (for_loop ?step [0..<1] example_store) = Inr ()"
    by (simp add: validation_eval example_eval)
  have h2: "for_loop ?step [0..<1] example_store = (?s1, Inr ())"
    using g by (simp add: prod_eq_iff)
  have h3: "validation_call (\<lambda>_. []) ?get (objs ?s1 (lsts ?s1 0 ! 1)) (world ?s1) =
              (2, Inr (JObj [(''candidates'', JArr [elm_candidate])]))"
    by (simp add: validation_eval example_store_def scripted_def candidates_json_def
        main_candidate_def candidate_json_def springfield_def)
  have h4: "getitem (JObj [(''candidates'', JArr [elm_candidate])]) ''candidates'' =
              Inr (JArr (elm_candidate # []))"
    by simp
  have h5: "getitem elm_candidate ''attributes'' = Inr ?attrs"
    by (simp add: elm_candidate_def candidate_json_def)
  have k: "getitem ?attrs ''AddNum'' = Inr (JStr ''456'')"
    "getitem ?attrs ''StName'' = Inr (JStr ''Elm'')"
    "getitem ?attrs ''StType'' = Inr (JStr ''St'')"
    "getitem ?attrs ''SubAddr'' = Inr (JStr [])"
    "getitem ?attrs ''City'' = Inr (JStr ''Shelbyville'')"
    "getitem ?attrs ''RegionAbbr'' = Inr (JStr ''IL'')"
    "getitem ?attrs ''Postal'' = Inr (JStr ''62565'')"
    by simp_all
  have r: "?received = \<lparr>street_number = JStr ''456'',
      street_name = JStr (py_str (\<lambda>_. []) (JStr ''Elm'') @ '' '' @ py_str (\<lambda>_. []) (JStr ''St'')),
      apt_number = JStr [], city = JStr ''Shelbyville'', state = JStr ''IL'',
      zip_code = JStr ''62565'', carrier_route = JNull\<rparr>"
    by simp
  have c: "(\<lambda>_. True) ?received"
    by simp
  have o: "objs ?s1 (lsts ?s1 0 ! 1) = elm"
    by (simp add: validation_eval example_store_def scripted_def candidates_json_def
        main_candidate_def candidate_json_def springfield_def)
  have n: "\<not> address_eq elm ?received"
    by (simp add: address_eq_def elm_def)
  have h6: "\<not> address_eq (objs ?s1 (lsts ?s1 0 ! 1)) ?received"
    using n o by simp
  have h7: "?run = (fst ?run, snd ?run)"
    by simp
  have f: "fresh ?s1 = 3"
    by (simp add: validation_eval example_store_def scripted_def candidates_json_def
        main_candidate_def candidate_json_def springfield_def)
  note th = validation_replaces_differing_candidate[OF h1 h2 h3 h4 h5 k r c h6 h7]
  have c1: "lsts (fst ?run) 0 ! 1 = 3"
    using th[THEN conjunct1] f by simp
  have c2: "objs (fst ?run) 3 = ?received"
    using th[THEN conjunct2] c1 by simp
  show ?thesis
    by (rule conjI[OF n conjI[OF c1 c2]])
qed

text \<open>
  C4 as first stated has the street name formed by concatenating \<^verbatim>\<open>StName\<close> and
  \<^verbatim>\<open>StType\<close>. For the candidate with \<^verbatim>\<open>StName\<close> \<open>Elm\<close> and \<^verbatim>\<open>StType\<close>
  \<open>St\<close> the entry that replaces the original has the street name \<open>Elm St\<close>, which
  is not the concatenation of the two.
\<close>

theorem street_name_not_plain_concatenation:
  "street_name (objs (fst (validation_respond (\<lambda>_. True) (\<lambda>_. [])
      (scripted [candidates_json [main_candidate], candidates_json [elm_candidate]]) 0 example_store))
      (lsts (fst (validation_respond (\<lambda>_. True) (\<lambda>_. [])
      (scripted [candidates_json [main_candidate], candidates_json [elm_candidate]]) 0 example_store)) 0 ! 1))
     = JStr ''Elm St'' \<and>
   street_name (objs (fst (validation_respond (\<lambda>_. True) (\<lambda>_. [])
      (scripted [candidates_json [main_candidate], candidates_json [elm_candidate]]) 0 example_store))
      (lsts (fst (validation_respond (\<lambda>_. True) (\<lambda>_. [])
      (scripted [candidates_json [main_candidate], candidates_json [elm_candidate]]) 0 example_store)) 0 ! 1))
     \<noteq> JStr (''Elm'' @ ''St'')"
  by (simp add: validation_eval example_eval)

text \<open>
  C5. In the validation stage, for every address whose lookup response holds no candidate,
  the entry of the batch is kept: the step changes nothing in the store but the world,
  and at the end of the stage the entry at that index is the object that was there (an
  object of the store, its reference below \<open>fresh\<close>), with every field, so every core
  field, as it was.
\<close>

theorem validation_keeps_without_candidates:
  assumes "idx < length (lsts s l)"
    and "lsts s l ! idx < fresh s"
    and "for_loop (validation_step complete rp api_get l) [0..<idx] s = (s1, Inr ())"
    and "validation_call rp api_get (objs s1 (lsts s1 l ! idx)) (world s1) = (w, Inr resp_json)"
    and "getitem resp_json ''candidates'' = Inr candidates"
    and "py_len candidates = Inr 0"
    and "validation_respond complete rp api_get l s = (s', r)"
  shows "validation_step complete rp api_get l idx s1 = (s1\<lparr>world := w\<rparr>, Inr ()) \<and>
         lsts s' l ! idx = lsts s l ! idx \<and>
         objs s' (lsts s' l ! idx) = objs s (lsts s l ! idx)"
proof -
  have len: "idx < length (lsts s1 l)"
    using validation_loop_frame(3)[OF assms(3)] assms(1) by simp
  have step: "validation_step complete rp api_get l idx s1 = (s1\<lparr>world := w\<rparr>, Inr ())"
    by (rule validation_step_no_candidates[OF len assms(4,5,6)])
  note e = validation_respond_entry[OF assms(1,3) step assms(7)]
  have 1: "lsts s' l ! idx = lsts s l ! idx" using e(1,3) by simp
  have "lsts s l ! idx < fresh s1" using assms(2) e(5) by linarith
  then have "objs s' (lsts s l ! idx) = objs s1 (lsts s l ! idx)" using e(2) by simp
  then have 2: "objs s' (lsts s' l ! idx) = objs s (lsts s l ! idx)"
    using 1 e(4) assms(2) by simp
  show ?thesis using step 1 2 by simp
qed

text \<open>
  The example batch: the first entry is replaced, the response for the second has no
  candidate.
\<close>

theorem validation_keeps_without_candidates_witness:
  "1 < length (lsts example_store 0) \<and>
   snd (for_loop (validation_step (\<lambda>_. True) (\<lambda>_. [])
          (scripted [candidates_json [elm_candidate], candidates_json []]) 0) [0..<1] example_store) = Inr () \<and>
   lsts (fst (validation_respond (\<lambda>_. True) (\<lambda>_. [])
          (scripted [candidates_json [elm_candidate], candidates_json []]) 0 example_store)) 0 = [2, 1] \<and>
   objs (fst (validation_respond (\<lambda>_. True) (\<lambda>_. [])
          (scripted [candidates_json [elm_candidate], candidates_json []]) 0 example_store)) 1 = elm"
proof -
  let ?get = "scripted [candidates_json [elm_candidate], candidates_json []]"
  let ?step = "validation_step (\<lambda>_. True) (\<lambda>_. []) ?get 0"
  let ?s1 = "fst (for_loop ?step [0..<1] example_store)"
  let ?run = "validation_respond (\<lambda>_. True) (\<lambda>_. []) ?get 0 example_store"
  have h1: "1 < length (lsts example_store 0)"
    by (simp add: example_store_def)
  have h2: "lsts example_store 0 ! 1 < fresh example_store"
    by (simp add: example_store_def)
  have g: "snd (for_loop ?step [0..<1] example_store) = Inr ()"
    by (simp add: validation_eval example_eval)
  have h3: "for_loop ?step [0..<1] example_store = (?s1, Inr ())"
    using g by (simp add: prod_eq_iff)
  have h4: "validation_call (\<lambda>_. []) ?get (objs ?s1 (lsts ?s1 0 ! 1)) (world ?s1) =
              (2, Inr (JObj [(''candidates'', JArr [])]))"
    by (simp add: validation_eval example_eval)
  have h5: "getitem (JObj [(''candidates'', JArr [])]) ''candidates'' = Inr (JArr [])"
    by simp
  have h6: "py_len (JArr []) = Inr 0"
    by simp
  have h7: "?run = (fst ?run, snd ?run)"
    by simp
  have k: "lsts (fst ?run) 0 ! 0 = 2" "length (lsts (fst ?run) 0) = 2"
    by (simp_all add: validation_eval example_eval)
  have e: "lsts example_store 0 ! 1 = 1" "objs example_store 1 = elm"
    by (simp_all add: example_store_def)
  note th = validation_keeps_without_candidates[OF h1 h2 h3 h4 h5 h6 h7]
  have c1: "lsts (fst ?run) 0 ! 1 = 1"
    using th[THEN conjunct2, THEN conjunct1] e by simp
  have c2: "objs (fst ?run) 1 = elm"
    using th[THEN conjunct2, THEN conjunct2] c1 e by simp
  have c3: "lsts (fst ?run) 0 = [2, 1]"
    using c1 k by (simp add: list_eq_iff_nth_eq less_Suc_eq numeral_2_eq_2)
  show ?thesis
    by (rule conjI[OF h1 conjI[OF g conjI[OF c3 c2]]])
qed

text \<open>
  C6. In the validation stage, when the address made from the first candidate is equal to
  the original on the core fields, the entry of the output batch is the original object
  itself (an object of the store, its reference below \<open>fresh\<close>), with every field as
  it was; in particular a carrier route set before is untouched.
\<close>

theorem validation_keeps_equal_candidate:
  assumes "idx < length (lsts s l)"
    and "lsts s l ! idx < fresh s"
    and "for_loop (validation_step complete rp api_get l) [0..<idx] s = (s1, Inr ())"
    and "validation_call rp api_get (objs s1 (lsts s1 l ! idx)) (world s1) = (w, Inr resp_json)"
    and "getitem resp_json ''candidates'' = Inr (JArr (candidate # others))"
    and "received_address complete rp candidate = Inr received"
    and "address_eq (objs s1 (lsts s1 l ! idx)) received"
    and "validation_respond complete rp api_get l s = (s', r)"
  shows "lsts s' l ! idx = lsts s l ! idx \<and>
         objs s' (lsts s' l ! idx) = objs s (lsts s l ! idx) \<and>
         carrier_route (objs s' (lsts s' l ! idx)) = carrier_route (objs s (lsts s l ! idx))"
proof -
  let ?s2 = "s1\<lparr>world := w, objs := (objs s1)(fresh s1 := received), fresh := Suc (fresh s1)\<rparr>"
  have len: "idx < length (lsts s1 l)"
    using validation_loop_frame(3)[OF assms(3)] assms(1) by simp
  have step: "validation_step complete rp api_get l idx s1 = (?s2, Inr ())"
    using validation_step_candidate[OF len assms(4,5,6)] assms(7) by simp
  note e = validation_respond_entry[OF assms(1,3) step assms(8)]
  have 1: "lsts s' l ! idx = lsts s l ! idx" using e(1,3) by simp
  have lt: "lsts s l ! idx < fresh s1" using assms(2) e(5) by linarith
  then have "objs s' (lsts s l ! idx) = objs ?s2 (lsts s l ! idx)" using e(2) by simp
  also have "\<dots> = objs s1 (lsts s l ! idx)" using lt by simp
  finally have 2: "objs s' (lsts s' l ! idx) = objs s (lsts s l ! idx)"
    using 1 e(4) assms(2) by simp
  show ?thesis using 1 2 by simp
qed

text \<open>
  The example batch: the candidate for the first entry equals it on the core fields, and
  the route \<open>R007\<close> that the entry has stays.
\<close>

theorem validation_keeps_equal_candidate_witness:
  "address_eq (objs example_store 0) springfield \<and>
   carrier_route (objs example_store 0) = JStr ''R007'' \<and>
   lsts (fst (validation_respond (\<lambda>_. True) (\<lambda>_. [])
          (scripted [candidates_json [main_candidate], candidates_json [elm_candidate]]) 0 example_store)) 0 ! 0 = 0 \<and>
   objs (fst (validation_respond (\<lambda>_. True) (\<lambda>_. [])
          (scripted [candidates_json [main_candidate], candidates_json [elm_candidate]]) 0 example_store)) 0 =
     springfield\<lparr>carrier_route := JStr ''R007''\<rparr>"
proof -
  let ?get = "scripted [candidates_json [main_candidate], candidates_json [elm_candidate]]"
  let ?step = "validation_step (\<lambda>_. True) (\<lambda>_. []) ?get 0"
  let ?run = "validation_respond (\<lambda>_. True) (\<lambda>_. []) ?get 0 example_store"
  have h1: "0 < length (lsts example_store 0)"
    by (simp add: example_store_def)
  have h2: "lsts example_store 0 ! 0 < fresh example_store"
    by (simp add: example_store_def)
  have h3: "for_loop ?step [0..<0] example_store = (example_store, Inr ())"
    by simp
  have h4: "validation_call (\<lambda>_. []) ?get (objs example_store (lsts example_store 0 ! 0))
              (world example_store) = (1, Inr (JObj [(''candidates'', JArr [main_candidate])]))"
    by (simp add: validation_call_def scripted_def candidates_json_def example_store_def)
  have h5: "getitem (JObj [(''candidates'', JArr [main_candidate])]) ''candidates'' =
              Inr (JArr (main_candidate # []))"
    by simp
  have h6: "received_address (\<lambda>_. True) (\<lambda>_. []) main_candidate = Inr springfield"
    by (simp add: received_address_def bindE_def build_def main_candidate_def candidate_json_def
        springfield_def)
  have e: "lsts example_store 0 ! 0 = 0"
    "objs example_store 0 = springfield\<lparr>carrier_route := JStr ''R007''\<rparr>"
    by (simp_all add: example_store_def)
  have a: "address_eq (objs example_store 0) springfield"
    by (simp add: e address_eq_def)
  have h7: "address_eq (objs example_store (lsts example_store 0 ! 0)) springfield"
    using a e by simp
  have h8: "?run = (fst ?run, snd ?run)"
    by simp
  note th = validation_keeps_equal_candidate[OF h1 h2 h3 h4 h5 h6 h7 h8]
  have c1: "lsts (fst ?run) 0 ! 0 = 0"
    using th[THEN conjunct1] e by simp
  have c2: "objs (fst ?run) 0 = springfield\<lparr>carrier_route := JStr ''R007''\<rparr>"
    using th[THEN conjunct2, THEN conjunct1] c1 e by simp
  have b: "carrier_route (objs example_store 0) = JStr ''R007''"
    by (simp add: e)
  show ?thesis
    by (rule conjI[OF a conjI[OF b conjI[OF c1 c2]]])
qed

text \<open>
  C8, as amended. In the validation stage an error for a single address (the call cannot
  complete, the response has no \<^verbatim>\<open>candidates\<close> key, or anything else the step
  raises) ends the run of the whole batch at once with that error: the call is not made
  again, no later address is looked up and no batch is returned. The step that raises
  changes neither a list nor an address. The entries at and after the index of the
  failure are the ones the batch had, and no address that existed before the run is
  changed; entries before that index keep the replacements made for them.
\<close>

theorem validation_aborts_on_error:
  assumes "idx < length (lsts s l)"
    and "for_loop (validation_step complete rp api_get l) [0..<idx] s = (s1, Inr ())"
  shows "(validation_call rp api_get (objs s1 (lsts s1 l ! idx)) (world s1) = (w, Inl e) \<longrightarrow>
            validation_respond complete rp api_get l s = (s1\<lparr>world := w\<rparr>, Inl e)) \<and>
         (validation_call rp api_get (objs s1 (lsts s1 l ! idx)) (world s1) = (w', Inr (JObj items)) \<and>
            ''candidates'' \<notin> fst ` set items \<longrightarrow>
            validation_respond complete rp api_get l s =
              (s1\<lparr>world := w'\<rparr>, Inl (KeyError (JStr ''candidates'')))) \<and>
         (validation_step complete rp api_get l idx s1 = (s2, Inl e') \<longrightarrow>
            validation_respond complete rp api_get l s = (s2, Inl e') \<and>
            objs s2 = objs s1 \<and> lsts s2 = lsts s1 \<and> fresh s2 = fresh s1) \<and>
         (\<forall>i. idx \<le> i \<longrightarrow> lsts s1 l ! i = lsts s l ! i) \<and>
         (\<forall>x<fresh s. objs s1 x = objs s x)"
proof -
  note sp = validation_respond_split[OF assms]
  have len: "idx < length (lsts s1 l)"
    using validation_loop_frame(3)[OF assms(2)] assms(1) by simp
  have a: "validation_call rp api_get (objs s1 (lsts s1 l ! idx)) (world s1) = (w, Inl e) \<longrightarrow>
            validation_respond complete rp api_get l s = (s1\<lparr>world := w\<rparr>, Inl e)"
    using len by (simp add: sp validation_step_def bindE_def)
  have "map_of items ''candidates'' = None" if "''candidates'' \<notin> fst ` set items"
    using that by (simp add: map_of_eq_None_iff)
  then have b: "validation_call rp api_get (objs s1 (lsts s1 l ! idx)) (world s1) = (w', Inr (JObj items)) \<and>
            ''candidates'' \<notin> fst ` set items \<longrightarrow>
            validation_respond complete rp api_get l s =
              (s1\<lparr>world := w'\<rparr>, Inl (KeyError (JStr ''candidates'')))"
    using len by (simp add: sp validation_step_def bindE_def best_candidate_def)
  have c: "validation_step complete rp api_get l idx s1 = (s2, Inl e') \<longrightarrow>
            validation_respond complete rp api_get l s = (s2, Inl e') \<and>
            objs s2 = objs s1 \<and> lsts s2 = lsts s1 \<and> fresh s2 = fresh s1"
  proof
    assume st: "validation_step complete rp api_get l idx s1 = (s2, Inl e')"
    have "s2 = s1\<lparr>world := world s2\<rparr>" by (rule validation_step_raises[OF st])
    then have "objs s2 = objs s1 \<and> lsts s2 = lsts s1 \<and> fresh s2 = fresh s1"
      by (metis store.select_convs(2,3,4) store.surjective store.update_convs(1))
    then show "validation_respond complete rp api_get l s = (s2, Inl e') \<and>
            objs s2 = objs s1 \<and> lsts s2 = lsts s1 \<and> fresh s2 = fresh s1"
      using st by (simp add: sp)
  qed
  have d: "\<forall>i. idx \<le> i \<longrightarrow> lsts s1 l ! i = lsts s l ! i"
    using validation_loop_frame(4)[OF assms(2)] by simp
  have e: "\<forall>x<fresh s. objs s1 x = objs s x"
    by (rule validation_loop_frame(2)[OF assms(2)])
  show ?thesis using a b c d e by blast
qed

text \<open>
  The example batch, with a second call that cannot complete, and with a second response
  that has no \<^verbatim>\<open>candidates\<close> key.
\<close>

theorem validation_aborts_on_error_witness:
  "snd (validation_respond (\<lambda>_. True) (\<lambda>_. [])
          (scripted [candidates_json [elm_candidate], Inl TransportError]) 0 example_store) =
     Inl TransportError \<and>
   snd (validation_respond (\<lambda>_. True) (\<lambda>_. [])
          (scripted [candidates_json [elm_candidate], no_candidates_key]) 0 example_store) =
     Inl (KeyError (JStr ''candidates'')) \<and>
   lsts (fst (validation_respond (\<lambda>_. True) (\<lambda>_. [])
          (scripted [candidates_json [elm_candidate], no_candidates_key]) 0 example_store)) 0 ! 1 = 1 \<and>
   world (fst (validation_respond (\<lambda>_. True) (\<lambda>_. [])
          (scripted [candidates_json [elm_candidate], no_candidates_key]) 0 example_store)) = 2 \<and>
   fresh (fst (validation_respond (\<lambda>_. True) (\<lambda>_. [])
          (scripted [candidates_json [elm_candidate], no_candidates_key]) 0 example_store)) = 3"
proof -
  let ?getT = "scripted [candidates_json [elm_candidate], Inl TransportError]"
  let ?getK = "scripted [candidates_json [elm_candidate], no_candidates_key]"
  let ?stepT = "validation_step (\<lambda>_. True) (\<lambda>_. []) ?getT 0"
  let ?stepK = "validation_step (\<lambda>_. True) (\<lambda>_. []) ?getK 0"
  let ?t1 = "fst (for_loop ?stepT [0..<1] example_store)"
  let ?k1 = "fst (for_loop ?stepK [0..<1] example_store)"
  let ?runT = "validation_respond (\<lambda>_. True) (\<lambda>_. []) ?getT 0 example_store"
  let ?runK = "validation_respond (\<lambda>_. True) (\<lambda>_. []) ?getK 0 example_store"
  have h1: "1 < length (lsts example_store 0)"
    by (simp add: example_store_def)
  have "snd (for_loop ?stepT [0..<1] example_store) = Inr ()"
    by (simp add: validation_eval example_eval)
  then have hT: "for_loop ?stepT [0..<1] example_store = (?t1, Inr ())"
    by (simp add: prod_eq_iff)
  have "snd (for_loop ?stepK [0..<1] example_store) = Inr ()"
    by (simp add: validation_eval example_eval)
  then have hK: "for_loop ?stepK [0..<1] example_store = (?k1, Inr ())"
    by (simp add: prod_eq_iff)
  have cT: "validation_call (\<lambda>_. []) ?getT (objs ?t1 (lsts ?t1 0 ! 1)) (world ?t1) =
              (2, Inl TransportError)"
    by (simp add: validation_eval example_eval)
  have cK: "validation_call (\<lambda>_. []) ?getK (objs ?k1 (lsts ?k1 0 ! 1)) (world ?k1) =
              (2, Inr (JObj [(''error'', JStr ''bad request'')]))"
    by (simp add: validation_eval example_eval no_candidates_key_def)
  have nk: "''candidates'' \<notin> fst ` set [(''error'', JStr ''bad request'')]"
    by simp
  note thT = validation_aborts_on_error[OF h1 hT, THEN conjunct1, THEN mp, OF cT]
  note thK = validation_aborts_on_error[OF h1 hK, THEN conjunct2, THEN conjunct1, THEN mp,
      OF conjI[OF cK nk]]
  note thL = validation_aborts_on_error[OF h1 hK, THEN conjunct2, THEN conjunct2,
      THEN conjunct2, THEN conjunct1, THEN spec, of 1]
  have c1: "snd ?runT = Inl TransportError"
    using thT by simp
  have c2: "snd ?runK = Inl (KeyError (JStr ''candidates''))"
    using thK by simp
  have "lsts ?k1 0 ! 1 = lsts example_store 0 ! 1"
    using thL by simp
  then have c3: "lsts (fst ?runK) 0 ! 1 = 1"
    using thK by (simp add: example_store_def)
  have c4: "world (fst ?runK) = 2"
    using thK by simp
  have "snd (?stepK 1 ?k1) = Inl (KeyError (JStr ''candidates''))"
    by (simp add: validation_eval example_eval)
  then have sK: "?stepK 1 ?k1 = (fst (?stepK 1 ?k1), Inl (KeyError (JStr ''candidates'')))"
    by (simp add: prod_eq_iff)
  note thS = validation_aborts_on_error[OF h1 hK, THEN conjunct2, THEN conjunct2,
      THEN conjunct1, THEN mp, OF sK]
  have "fresh ?k1 = 3"
    by (simp add: validation_eval example_eval)
  then have c5: "fresh (fst ?runK) = 3"
    using thS by simp
  show ?thesis
    by (rule conjI[OF c1 conjI[OF c2 conjI[OF c3 conjI[OF c4 c5]]]])
qed

text \<open>
  C8 as first stated has no entry of the batch left modified when the stage aborts. In
  the example the first entry is replaced by the object \<open>2\<close>, the second lookup raises
  \<^verbatim>\<open>KeyError\<close>, and the list of the caller holds the replacement.
\<close>

theorem validation_abort_leaves_replacement:
  "snd (validation_respond (\<lambda>_. True) (\<lambda>_. [])
          (scripted [candidates_json [elm_candidate], no_candidates_key]) 0 example_store) =
     Inl (KeyError (JStr ''candidates'')) \<and>
   lsts example_store 0 = [0, 1] \<and>
   lsts (fst (validation_respond (\<lambda>_. True) (\<lambda>_. [])
          (scripted [candidates_json [elm_candidate], no_candidates_key]) 0 example_store)) 0 = [2, 1]"
  by (simp add: validation_eval example_eval no_candidates_key_def)

section \<open>End to end\<close>

text \<open>
  The end-to-end example of the specification: the address 123 Main St, Springfield,
  IL 62704 with an empty apartment number; the validation lookup returns one candidate
  equal to it on all core fields, so the address is unchanged; the carrier lookup then
  returns an address list with the one route \<open>C001\<close>, and the carrier route of the
  address is \<open>C001\<close>.
\<close>

theorem end_to_end_example:
  "snd (pipeline_respond
     [validation_respond (\<lambda>_. True) (\<lambda>_. [])
        (scripted [candidates_json [main_candidate], address_list_json [JStr ''C001'']]),
      carrier_respond (\<lambda>_. [])
        (scripted [candidates_json [main_candidate], address_list_json [JStr ''C001'']])]
     0 springfield_store) = Inr 0 \<and>
   lsts (fst (pipeline_respond
     [validation_respond (\<lambda>_. True) (\<lambda>_. [])
        (scripted [candidates_json [main_candidate], address_list_json [JStr ''C001'']]),
      carrier_respond (\<lambda>_. [])
        (scripted [candidates_json [main_candidate], address_list_json [JStr ''C001'']])]
     0 springfield_store)) 0 = [0] \<and>
   objs (fst (pipeline_respond
     [validation_respond (\<lambda>_. True) (\<lambda>_. [])
        (scripted [candidates_json [main_candidate], address_list_json [JStr ''C001'']]),
      carrier_respond (\<lambda>_. [])
        (scripted [candidates_json [main_candidate], address_list_json [JStr ''C001'']])]
     0 springfield_store)) 0 = springfield\<lparr>carrier_route := JStr ''C001''\<rparr>"
  by (simp add: pipeline_respond_def validation_eval carrier_eval example_eval
      springfield_store_def)

end
